theory Spec2Isabelle
  imports Complex_Main "HOL-Library.Sublist"
begin

section \<open>Values of a parsed specification document\<close>

text \<open>
  \<^verbatim>\<open>parseSpec\<close> hands the differ whatever \<^verbatim>\<open>JSON.parse\<close> or \<^verbatim>\<open>yaml.load\<close> returned, so the
  differ works on untyped values. An object is its list of own properties in enumeration
  order (the order a \<^verbatim>\<open>for ... in\<close> loop visits them, each key once). A property read that
  finds no own property goes on to the prototype of the value and may find a built-in
  member there (\<^verbatim>\<open>constructor\<close>, \<^verbatim>\<open>toString\<close> and the like): such a member is a value
  \<open>JBuiltin\<close>, named after the built-in object it is. The only things the differ does with
  a number are to test it for truthiness and to compare it with \<^verbatim>\<open>===\<close>.
\<close>

datatype jsnum = Finite rat | PosInf | NegInf | NaN

datatype json =
    JUndefined
  | JNull
  | JBool bool
  | JNum jsnum
  | JStr string
  | JArr "json list"
  | JObj "(string \<times> json) list"
  | JBuiltin string

datatype error = TypeError | Error string

type_synonym 'a result = "error + 'a"

definition bind :: "'a result \<Rightarrow> ('a \<Rightarrow> 'b result) \<Rightarrow> 'b result" where
  "bind r f = (case r of Inl e \<Rightarrow> Inl e | Inr v \<Rightarrow> f v)"

text \<open>The body of a loop pushes records to a local array or throws; a throw ends the loop.\<close>

fun for_each :: "('a \<Rightarrow> 'b list result) \<Rightarrow> 'a list \<Rightarrow> 'b list result" where
  "for_each f [] = Inr []"
| "for_each f (x # xs) =
     bind (f x) (\<lambda>ys. bind (for_each f xs) (\<lambda>zs. Inr (ys @ zs)))"

text \<open>Truthiness, as \<^verbatim>\<open>!x\<close> and \<^verbatim>\<open>x || y\<close> test it.\<close>

fun truthy :: "json \<Rightarrow> bool" where
  "truthy JUndefined = False"
| "truthy JNull = False"
| "truthy (JBool b) = b"
| "truthy (JNum n) = (case n of Finite r \<Rightarrow> r \<noteq> 0 | PosInf \<Rightarrow> True | NegInf \<Rightarrow> True | NaN \<Rightarrow> False)"
| "truthy (JStr s) = (s \<noteq> [])"
| "truthy (JArr xs) = True"
| "truthy (JObj kvs) = True"
| "truthy (JBuiltin b) = True"

definition or_default :: "json \<Rightarrow> json \<Rightarrow> json" where
  "or_default v d = (if truthy v then v else d)"

text \<open>
  \<^verbatim>\<open>a === b\<close> for two values that come from two different documents: primitives are
  compared by value, NaN differs from itself, two objects or arrays are never the
  same reference, and a built-in object is the same in both documents.
\<close>

fun strict_eq :: "json \<Rightarrow> json \<Rightarrow> bool" where
  "strict_eq JUndefined JUndefined = True"
| "strict_eq JNull JNull = True"
| "strict_eq (JBool a) (JBool b) = (a = b)"
| "strict_eq (JNum a) (JNum b) = (a \<noteq> NaN \<and> a = b)"
| "strict_eq (JStr a) (JStr b) = (a = b)"
| "strict_eq (JBuiltin a) (JBuiltin b) = (a = b)"
| "strict_eq a b = False"

text \<open>Decimal rendering of an array index, the name of the index as a property key.\<close>

definition digit_char :: "nat \<Rightarrow> char" where
  "digit_char d = char_of (48 + d)"

fun dec :: "nat \<Rightarrow> string" where
  "dec n = (if n < 10 then [digit_char n] else dec (n div 10) @ [digit_char (n mod 10)])"

declare dec.simps [simp del]

text \<open>
  The built-in objects belong to the engine, not to the repository: what a value inherits
  is a parameter of the model. \<open>proto \<kappa> k\<close> is the member named \<open>k\<close> that a value of kind
  \<open>\<kappa>\<close> finds on its prototype chain, \<^verbatim>\<open>undefined\<close> when there is none; every property of a
  built-in object is read this way.
\<close>

datatype kind = KObject | KArray | KString | KNumber | KBoolean | KBuiltin string

type_synonym prototypes = "kind \<Rightarrow> string \<Rightarrow> json"

text \<open>
  \<^verbatim>\<open>v[k]\<close> and \<^verbatim>\<open>v.k\<close>: a TypeError on \<^verbatim>\<open>null\<close> and \<^verbatim>\<open>undefined\<close>; otherwise the own property
  of an object, an element or the length of an array or string, and failing that the
  inherited member.
\<close>

fun get_prop :: "prototypes \<Rightarrow> json \<Rightarrow> string \<Rightarrow> json result" where
  "get_prop proto JUndefined k = Inl TypeError"
| "get_prop proto JNull k = Inl TypeError"
| "get_prop proto (JObj kvs) k =
     Inr (case map_of kvs k of Some v \<Rightarrow> v | None \<Rightarrow> proto KObject k)"
| "get_prop proto (JArr xs) k =
     Inr (if k = ''length'' then JNum (Finite (of_nat (length xs)))
          else case find (\<lambda>i. dec i = k) [0..<length xs] of
                 Some i \<Rightarrow> xs ! i | None \<Rightarrow> proto KArray k)"
| "get_prop proto (JStr s) k =
     Inr (if k = ''length'' then JNum (Finite (of_nat (length s)))
          else case find (\<lambda>i. dec i = k) [0..<length s] of
                 Some i \<Rightarrow> JStr [s ! i] | None \<Rightarrow> proto KString k)"
| "get_prop proto (JBool b) k = Inr (proto KBoolean k)"
| "get_prop proto (JNum n) k = Inr (proto KNumber k)"
| "get_prop proto (JBuiltin b) k = Inr (proto (KBuiltin b) k)"

text \<open>
  The keys a \<^verbatim>\<open>for (const k in v)\<close> loop visits: the own keys; the members of the built-in
  prototypes are not enumerable.
\<close>

fun enum_keys :: "json \<Rightarrow> string list" where
  "enum_keys (JObj kvs) = map fst kvs"
| "enum_keys (JArr xs) = map dec [0..<length xs]"
| "enum_keys (JStr s) = map dec [0..<length s]"
| "enum_keys v = []"

text \<open>\<^verbatim>\<open>v.forEach\<close> and \<^verbatim>\<open>v.find\<close> exist on arrays only; calling them elsewhere is a TypeError.\<close>

fun as_array :: "json \<Rightarrow> json list result" where
  "as_array (JArr xs) = Inr xs"
| "as_array v = Inl TypeError"

section \<open>utils/openapi-diff.js\<close>

datatype pdelta =
    new_parameter json json
  | parameter_requirement_changed json json json json
  | removed_parameter json json

datatype rdelta = new_response_code string | removed_response_code string

datatype change =
    new_endpoint string
  | new_method string string
  | parameter_changes string string "pdelta list"
  | response_changes string string "rdelta list"
  | removed_endpoint string
  | removed_method string string

text \<open>
  \<^verbatim>\<open>JSON.parse\<close> and \<^verbatim>\<open>yaml.load\<close> are library code: they are parameters of the model, each
  returning the parsed value or (\<open>Inl\<close>) the message of the error it throws.
\<close>

type_synonym parser = "string \<Rightarrow> string + json"

definition parseSpec :: "parser \<Rightarrow> parser \<Rightarrow> string \<Rightarrow> json result" where
  "parseSpec json_parse yaml_load specStr =
     (case json_parse specStr of
        Inr v \<Rightarrow> Inr v
      | Inl jsonError \<Rightarrow>
          (case yaml_load specStr of
             Inr v \<Rightarrow> Inr v
           | Inl yamlError \<Rightarrow>
               Inl (Error (''Could not parse spec as JSON or YAML: '' @ jsonError @ '', '' @ yamlError))))"

text \<open>The callback of \<^verbatim>\<open>find\<close>: \<^verbatim>\<open>p.name === q.name && p.in === q.in\<close>.\<close>

definition same_param :: "prototypes \<Rightarrow> json \<Rightarrow> json \<Rightarrow> bool result" where
  "same_param proto p q =
     bind (get_prop proto p ''name'') (\<lambda>pn. bind (get_prop proto q ''name'') (\<lambda>qn.
       if strict_eq pn qn
       then bind (get_prop proto p ''in'') (\<lambda>pl. bind (get_prop proto q ''in'') (\<lambda>ql. Inr (strict_eq pl ql)))
       else Inr False))"

fun find_param :: "prototypes \<Rightarrow> json list \<Rightarrow> json \<Rightarrow> json result" where
  "find_param proto [] q = Inr JUndefined"
| "find_param proto (p # ps) q =
     bind (same_param proto p q) (\<lambda>b. if b then Inr p else find_param proto ps q)"

definition new_param_step :: "prototypes \<Rightarrow> json \<Rightarrow> json \<Rightarrow> pdelta list result" where
  "new_param_step proto oldParams newParam =
     bind (as_array oldParams) (\<lambda>olds. bind (find_param proto olds newParam) (\<lambda>oldParam.
       if \<not> truthy oldParam
       then bind (get_prop proto newParam ''name'') (\<lambda>n. bind (get_prop proto newParam ''in'') (\<lambda>l.
              Inr [new_parameter n l]))
       else bind (get_prop proto oldParam ''required'') (\<lambda>oreq.
            bind (get_prop proto newParam ''required'') (\<lambda>nreq.
              if \<not> strict_eq oreq nreq
              then bind (get_prop proto newParam ''name'') (\<lambda>n. bind (get_prop proto newParam ''in'') (\<lambda>l.
                     Inr [parameter_requirement_changed n l
                            (or_default oreq (JBool False)) (or_default nreq (JBool False))]))
              else Inr []))))"

definition removed_param_step :: "prototypes \<Rightarrow> json \<Rightarrow> json \<Rightarrow> pdelta list result" where
  "removed_param_step proto newParams oldParam =
     bind (as_array newParams) (\<lambda>news. bind (find_param proto news oldParam) (\<lambda>newParam.
       if \<not> truthy newParam
       then bind (get_prop proto oldParam ''name'') (\<lambda>n. bind (get_prop proto oldParam ''in'') (\<lambda>l.
              Inr [removed_parameter n l]))
       else Inr []))"

definition compareParameters :: "prototypes \<Rightarrow> json \<Rightarrow> json \<Rightarrow> pdelta list result" where
  "compareParameters proto oldParams newParams =
     bind (as_array newParams) (\<lambda>news.
     bind (for_each (new_param_step proto oldParams) news) (\<lambda>added.
     bind (as_array oldParams) (\<lambda>olds.
     bind (for_each (removed_param_step proto newParams) olds) (\<lambda>removed.
       Inr (added @ removed)))))"

definition new_code_step :: "prototypes \<Rightarrow> json \<Rightarrow> string \<Rightarrow> rdelta list result" where
  "new_code_step proto oldResponses code =
     bind (get_prop proto oldResponses code) (\<lambda>r.
       if \<not> truthy r then Inr [new_response_code code] else Inr [])"

definition removed_code_step :: "prototypes \<Rightarrow> json \<Rightarrow> string \<Rightarrow> rdelta list result" where
  "removed_code_step proto newResponses code =
     bind (get_prop proto newResponses code) (\<lambda>r.
       if \<not> truthy r then Inr [removed_response_code code] else Inr [])"

definition compareResponses :: "prototypes \<Rightarrow> json \<Rightarrow> json \<Rightarrow> rdelta list result" where
  "compareResponses proto oldResponses newResponses =
     bind (for_each (new_code_step proto oldResponses) (enum_keys newResponses)) (\<lambda>added.
     bind (for_each (removed_code_step proto newResponses) (enum_keys oldResponses)) (\<lambda>removed.
       Inr (added @ removed)))"

text \<open>
  The body of the inner loop of the forward pass, for one key \<open>method\<close> of
  \<^verbatim>\<open>newSpec.paths[path]\<close>; \<open>oldItem\<close> and \<open>newItem\<close> are \<^verbatim>\<open>oldSpec.paths[path]\<close> and
  \<^verbatim>\<open>newSpec.paths[path]\<close>, which the source reads again at each use.
\<close>

definition new_method_step :: "prototypes \<Rightarrow> json \<Rightarrow> json \<Rightarrow> string \<Rightarrow> string \<Rightarrow> change list result" where
  "new_method_step proto oldItem newItem path method =
     bind (get_prop proto oldItem method) (\<lambda>oldOp.
       if \<not> truthy oldOp then Inr [new_method path method]
       else
         bind (get_prop proto oldOp ''parameters'') (\<lambda>op.
         bind (get_prop proto newItem method) (\<lambda>newOp.
         bind (get_prop proto newOp ''parameters'') (\<lambda>np.
         bind (compareParameters proto (or_default op (JArr [])) (or_default np (JArr []))) (\<lambda>paramChanges.
         bind (get_prop proto oldOp ''responses'') (\<lambda>ors.
         bind (get_prop proto newOp ''responses'') (\<lambda>nrs.
         bind (compareResponses proto (or_default ors (JObj [])) (or_default nrs (JObj []))) (\<lambda>responseChanges.
           Inr ((if paramChanges \<noteq> [] then [parameter_changes path method paramChanges] else []) @
                (if responseChanges \<noteq> [] then [response_changes path method responseChanges] else []))))))))))"

definition new_path_step :: "prototypes \<Rightarrow> json \<Rightarrow> json \<Rightarrow> string \<Rightarrow> change list result" where
  "new_path_step proto oldSpec newPaths path =
     bind (get_prop proto oldSpec ''paths'') (\<lambda>oldPaths.
       if \<not> truthy oldPaths then Inr [new_endpoint path]
       else
         bind (get_prop proto oldPaths path) (\<lambda>oldItem.
           if \<not> truthy oldItem then Inr [new_endpoint path]
           else
             bind (get_prop proto newPaths path) (\<lambda>newItem.
               for_each (new_method_step proto oldItem newItem path) (enum_keys newItem))))"

definition removed_method_step :: "prototypes \<Rightarrow> json \<Rightarrow> string \<Rightarrow> string \<Rightarrow> change list result" where
  "removed_method_step proto newItem path method =
     bind (get_prop proto newItem method) (\<lambda>newOp.
       if \<not> truthy newOp then Inr [removed_method path method] else Inr [])"

definition removed_path_step :: "prototypes \<Rightarrow> json \<Rightarrow> json \<Rightarrow> string \<Rightarrow> change list result" where
  "removed_path_step proto newSpec oldPaths path =
     bind (get_prop proto newSpec ''paths'') (\<lambda>newPaths.
       if \<not> truthy newPaths then Inr [removed_endpoint path]
       else
         bind (get_prop proto newPaths path) (\<lambda>newItem.
           if \<not> truthy newItem then Inr [removed_endpoint path]
           else
             bind (get_prop proto oldPaths path) (\<lambda>oldItem.
               for_each (removed_method_step proto newItem path) (enum_keys oldItem))))"

text \<open>The two passes, on the two parsed documents: what the \<^verbatim>\<open>try\<close> block does after parsing.\<close>

definition compare_specs :: "prototypes \<Rightarrow> json \<Rightarrow> json \<Rightarrow> change list result" where
  "compare_specs proto oldSpec newSpec =
     bind (get_prop proto newSpec ''paths'') (\<lambda>np.
     bind (for_each (new_path_step proto oldSpec (or_default np (JObj [])))
             (enum_keys (or_default np (JObj [])))) (\<lambda>forward.
     bind (get_prop proto oldSpec ''paths'') (\<lambda>op.
     bind (for_each (removed_path_step proto newSpec (or_default op (JObj [])))
             (enum_keys (or_default op (JObj [])))) (\<lambda>backward.
       Inr (forward @ backward)))))"

definition try_block :: "prototypes \<Rightarrow> parser \<Rightarrow> parser \<Rightarrow> string \<Rightarrow> string \<Rightarrow> change list result" where
  "try_block proto json_parse yaml_load oldSpecStr newSpecStr =
     bind (parseSpec json_parse yaml_load oldSpecStr) (\<lambda>oldSpec.
     bind (parseSpec json_parse yaml_load newSpecStr) (\<lambda>newSpec.
       compare_specs proto oldSpec newSpec))"

text \<open>
  The result of the whole function is \<open>Inr\<close> of the list it returns, or \<open>Inl\<close> of an error
  that leaves it; the \<^verbatim>\<open>catch\<close> clause logs and returns the empty list.
\<close>

definition diffOpenAPISpecs :: "prototypes \<Rightarrow> parser \<Rightarrow> parser \<Rightarrow> string \<Rightarrow> string \<Rightarrow> change list result" where
  "diffOpenAPISpecs proto json_parse yaml_load oldSpecStr newSpecStr =
     (case try_block proto json_parse yaml_load oldSpecStr newSpecStr of
        Inr changes \<Rightarrow> Inr changes
      | Inl e \<Rightarrow> Inr [])"

section \<open>Documents within the reach of the differ\<close>

text \<open>
  \<open>rd\<close> is the value of a property read that does not throw (and \<^verbatim>\<open>undefined\<close> for a read
  that does: the predicates below keep such reads out of the comparison). The members of
  a document are the values of the keys of its path items: operations, and also
  path-level fields such as \<^verbatim>\<open>summary\<close> or \<^verbatim>\<open>parameters\<close>.
\<close>

definition rd :: "prototypes \<Rightarrow> json \<Rightarrow> string \<Rightarrow> json" where
  "rd proto v k = (case get_prop proto v k of Inr x \<Rightarrow> x | Inl e \<Rightarrow> JUndefined)"

fun non_null :: "json \<Rightarrow> bool" where
  "non_null JUndefined = False"
| "non_null JNull = False"
| "non_null v = True"

fun is_obj :: "json \<Rightarrow> bool" where
  "is_obj (JObj kvs) = True"
| "is_obj v = False"

definition self_eq :: "json \<Rightarrow> bool" where
  "self_eq v = strict_eq v v"

definition paths_of :: "prototypes \<Rightarrow> json \<Rightarrow> json" where
  "paths_of proto spec = or_default (rd proto spec ''paths'') (JObj [])"

definition items_of :: "prototypes \<Rightarrow> json \<Rightarrow> (string \<times> json) list" where
  "items_of proto spec = (case paths_of proto spec of JObj items \<Rightarrow> items | _ \<Rightarrow> [])"

definition operations_of :: "json \<Rightarrow> (string \<times> json) list" where
  "operations_of item = (case item of JObj ops \<Rightarrow> ops | _ \<Rightarrow> [])"

definition members :: "prototypes \<Rightarrow> json \<Rightarrow> json list" where
  "members proto spec = concat (map (\<lambda>pi. map snd (operations_of (snd pi))) (items_of proto spec))"

definition parameters_of :: "prototypes \<Rightarrow> json \<Rightarrow> json" where
  "parameters_of proto operation = or_default (rd proto operation ''parameters'') (JArr [])"

definition responses_of :: "prototypes \<Rightarrow> json \<Rightarrow> json" where
  "responses_of proto operation = or_default (rd proto operation ''responses'') (JObj [])"

definition params_list :: "json \<Rightarrow> json list" where
  "params_list v = (case v of JArr ps \<Rightarrow> ps | _ \<Rightarrow> [])"

text \<open>
  The document is not \<^verbatim>\<open>null\<close>, its \<^verbatim>\<open>paths\<close> is an object or falsy, and every path item is
  an object.
\<close>

definition well_shaped :: "prototypes \<Rightarrow> json \<Rightarrow> bool" where
  "well_shaped proto spec =
     (non_null spec \<and> is_obj (paths_of proto spec)
      \<and> list_all (\<lambda>pi. is_obj (snd pi)) (items_of proto spec))"

text \<open>
  A member that can be compared without a throw: it is not \<^verbatim>\<open>null\<close>, and its \<^verbatim>\<open>parameters\<close>,
  when truthy, is an array without \<^verbatim>\<open>null\<close> entries.
\<close>

definition params_safe :: "json \<Rightarrow> bool" where
  "params_safe v = (case v of JArr ps \<Rightarrow> list_all non_null ps | _ \<Rightarrow> False)"

definition operation_safe :: "prototypes \<Rightarrow> json \<Rightarrow> bool" where
  "operation_safe proto operation =
     (non_null operation \<and> params_safe (parameters_of proto operation))"

text \<open>A path of the new document under which the old document has a truthy path item.\<close>

definition shared_path :: "prototypes \<Rightarrow> json \<Rightarrow> json \<Rightarrow> string \<Rightarrow> bool" where
  "shared_path proto oldSpec newSpec path =
     (path \<in> set (enum_keys (paths_of proto newSpec)) \<and> truthy (rd proto oldSpec ''paths'')
      \<and> truthy (rd proto (paths_of proto oldSpec) path))"

text \<open>
  Two documents whose comparison meets nothing that throws: wherever the old document has
  a truthy member under a path and key of the new one, that member and the new one can
  be compared.
\<close>

definition comparable_specs :: "prototypes \<Rightarrow> json \<Rightarrow> json \<Rightarrow> bool" where
  "comparable_specs proto oldSpec newSpec =
     (non_null oldSpec \<and> non_null newSpec
      \<and> list_all (\<lambda>path. shared_path proto oldSpec newSpec path \<longrightarrow>
            list_all (\<lambda>method.
                truthy (rd proto (rd proto (paths_of proto oldSpec) path) method) \<longrightarrow>
                  operation_safe proto (rd proto (rd proto (paths_of proto oldSpec) path) method)
                  \<and> operation_safe proto (rd proto (rd proto (paths_of proto newSpec) path) method))
              (enum_keys (rd proto (paths_of proto newSpec) path)))
          (enum_keys (paths_of proto newSpec)))"

text \<open>No path and no key of a path item is the name of a member that objects inherit.\<close>

definition own_keys_only :: "prototypes \<Rightarrow> json \<Rightarrow> bool" where
  "own_keys_only proto spec =
     list_all (\<lambda>pi. \<not> truthy (proto KObject (fst pi))
                  \<and> list_all (\<lambda>mo. \<not> truthy (proto KObject (fst mo))) (operations_of (snd pi)))
       (items_of proto spec)"

text \<open>
  Two parameters denote the same parameter when their \<^verbatim>\<open>name\<close> and their \<^verbatim>\<open>in\<close> are equal
  under \<^verbatim>\<open>===\<close>. In a consistent document every member is truthy, its parameter list has
  truthy entries only, and entries that denote the same parameter carry the same
  \<^verbatim>\<open>required\<close>.
\<close>

definition same_key :: "prototypes \<Rightarrow> json \<Rightarrow> json \<Rightarrow> bool" where
  "same_key proto p q =
     (strict_eq (rd proto p ''name'') (rd proto q ''name'')
      \<and> strict_eq (rd proto p ''in'') (rd proto q ''in''))"

definition flags_agree :: "prototypes \<Rightarrow> json list \<Rightarrow> bool" where
  "flags_agree proto ps =
     list_all (\<lambda>p. list_all (\<lambda>q. same_key proto p q
                  \<longrightarrow> rd proto p ''required'' = rd proto q ''required'') ps) ps"

definition params_consistent :: "prototypes \<Rightarrow> json \<Rightarrow> bool" where
  "params_consistent proto v =
     (case v of JArr ps \<Rightarrow> list_all truthy ps \<and> flags_agree proto ps | _ \<Rightarrow> False)"

definition consistent_spec :: "prototypes \<Rightarrow> json \<Rightarrow> bool" where
  "consistent_spec proto spec =
     (well_shaped proto spec
      \<and> list_all (\<lambda>operation. truthy operation
                     \<and> params_consistent proto (parameters_of proto operation))
          (members proto spec))"

text \<open>
  In a document that is equal to its own copy, moreover, the \<^verbatim>\<open>name\<close>, \<^verbatim>\<open>in\<close> and
  \<^verbatim>\<open>required\<close> of every parameter are equal to themselves under \<^verbatim>\<open>===\<close> (a primitive value
  other than NaN, or absent), and every response is truthy.
\<close>

definition param_reflexive :: "prototypes \<Rightarrow> json \<Rightarrow> bool" where
  "param_reflexive proto p =
     (self_eq (rd proto p ''name'') \<and> self_eq (rd proto p ''in'')
      \<and> self_eq (rd proto p ''required''))"

definition operation_reflexive :: "prototypes \<Rightarrow> json \<Rightarrow> bool" where
  "operation_reflexive proto operation =
     (list_all (param_reflexive proto) (params_list (parameters_of proto operation))
      \<and> list_all (\<lambda>code. truthy (rd proto (responses_of proto operation) code))
            (enum_keys (responses_of proto operation)))"

definition reflexive_spec :: "prototypes \<Rightarrow> json \<Rightarrow> bool" where
  "reflexive_spec proto spec =
     (consistent_spec proto spec \<and> list_all (operation_reflexive proto) (members proto spec))"

text \<open>Exchanging the roles of the old and the new document in a delta.\<close>

fun flip_pdelta :: "pdelta \<Rightarrow> pdelta" where
  "flip_pdelta (new_parameter n l) = removed_parameter n l"
| "flip_pdelta (removed_parameter n l) = new_parameter n l"
| "flip_pdelta (parameter_requirement_changed n l f t) = parameter_requirement_changed n l t f"

fun flip_rdelta :: "rdelta \<Rightarrow> rdelta" where
  "flip_rdelta (new_response_code c) = removed_response_code c"
| "flip_rdelta (removed_response_code c) = new_response_code c"

section \<open>The differ without its error cases\<close>

text \<open>
  The two passes again, with every read written as \<open>rd\<close>: what the differ computes when
  nothing throws. It is proved below to agree with \<open>compare_specs\<close> on documents that
  keep the comparison from throwing.
\<close>

definition found_param :: "prototypes \<Rightarrow> json list \<Rightarrow> json \<Rightarrow> json" where
  "found_param proto ps q =
     (case find (\<lambda>p. same_key proto p q) ps of Some p \<Rightarrow> p | None \<Rightarrow> JUndefined)"

definition added_deltas :: "prototypes \<Rightarrow> json list \<Rightarrow> json \<Rightarrow> pdelta list" where
  "added_deltas proto olds q =
     (if \<not> truthy (found_param proto olds q)
      then [new_parameter (rd proto q ''name'') (rd proto q ''in'')]
      else if \<not> strict_eq (rd proto (found_param proto olds q) ''required'') (rd proto q ''required'')
      then [parameter_requirement_changed (rd proto q ''name'') (rd proto q ''in'')
              (or_default (rd proto (found_param proto olds q) ''required'') (JBool False))
              (or_default (rd proto q ''required'') (JBool False))]
      else [])"

definition removed_deltas :: "prototypes \<Rightarrow> json list \<Rightarrow> json \<Rightarrow> pdelta list" where
  "removed_deltas proto news p =
     (if \<not> truthy (found_param proto news p)
      then [removed_parameter (rd proto p ''name'') (rd proto p ''in'')]
      else [])"

definition param_deltas :: "prototypes \<Rightarrow> json list \<Rightarrow> json list \<Rightarrow> pdelta list" where
  "param_deltas proto olds news =
     concat (map (added_deltas proto olds) news) @ concat (map (removed_deltas proto news) olds)"

definition code_deltas :: "prototypes \<Rightarrow> json \<Rightarrow> json \<Rightarrow> rdelta list" where
  "code_deltas proto oldResponses newResponses =
     concat (map (\<lambda>c. if \<not> truthy (rd proto oldResponses c) then [new_response_code c] else [])
               (enum_keys newResponses)) @
     concat (map (\<lambda>c. if \<not> truthy (rd proto newResponses c) then [removed_response_code c] else [])
               (enum_keys oldResponses))"

definition operation_changes :: "prototypes \<Rightarrow> json \<Rightarrow> json \<Rightarrow> string \<Rightarrow> string \<Rightarrow> change list" where
  "operation_changes proto oldOp newOp path method =
     (if param_deltas proto (params_list (parameters_of proto oldOp))
           (params_list (parameters_of proto newOp)) \<noteq> []
      then [parameter_changes path method
              (param_deltas proto (params_list (parameters_of proto oldOp))
                 (params_list (parameters_of proto newOp)))]
      else []) @
     (if code_deltas proto (responses_of proto oldOp) (responses_of proto newOp) \<noteq> []
      then [response_changes path method
              (code_deltas proto (responses_of proto oldOp) (responses_of proto newOp))]
      else [])"

definition forward_method :: "prototypes \<Rightarrow> json \<Rightarrow> json \<Rightarrow> string \<Rightarrow> string \<Rightarrow> change list" where
  "forward_method proto oldItem newItem path method =
     (if \<not> truthy (rd proto oldItem method) then [new_method path method]
      else operation_changes proto (rd proto oldItem method) (rd proto newItem method) path method)"

definition forward_path :: "prototypes \<Rightarrow> json \<Rightarrow> json \<Rightarrow> string \<Rightarrow> change list" where
  "forward_path proto oldPaths newPaths path =
     (if \<not> truthy oldPaths \<or> \<not> truthy (rd proto oldPaths path) then [new_endpoint path]
      else concat (map (forward_method proto (rd proto oldPaths path) (rd proto newPaths path) path)
                     (enum_keys (rd proto newPaths path))))"

definition backward_method :: "prototypes \<Rightarrow> json \<Rightarrow> string \<Rightarrow> string \<Rightarrow> change list" where
  "backward_method proto newItem path method =
     (if \<not> truthy (rd proto newItem method) then [removed_method path method] else [])"

definition backward_path :: "prototypes \<Rightarrow> json \<Rightarrow> json \<Rightarrow> string \<Rightarrow> change list" where
  "backward_path proto newPaths oldPaths path =
     (if \<not> truthy newPaths \<or> \<not> truthy (rd proto newPaths path) then [removed_endpoint path]
      else concat (map (backward_method proto (rd proto newPaths path) path)
                     (enum_keys (rd proto oldPaths path))))"

definition plain_diff :: "prototypes \<Rightarrow> json \<Rightarrow> json \<Rightarrow> change list" where
  "plain_diff proto oldSpec newSpec =
     concat (map (forward_path proto (rd proto oldSpec ''paths'') (paths_of proto newSpec))
               (enum_keys (paths_of proto newSpec))) @
     concat (map (backward_path proto (rd proto newSpec ''paths'') (paths_of proto oldSpec))
               (enum_keys (paths_of proto oldSpec)))"

section \<open>Sample documents\<close>

text \<open>
  The members every value inherits from \<^verbatim>\<open>Object.prototype\<close>, as a stand-in for the
  prototypes of the engine: the examples read inherited members of plain objects only,
  and of a built-in object only \<^verbatim>\<open>parameters\<close> and \<^verbatim>\<open>responses\<close>, which none has.
\<close>

definition object_prototype_names :: "string list" where
  "object_prototype_names =
     [''constructor'', ''__defineGetter__'', ''__defineSetter__'', ''hasOwnProperty'',
      ''__lookupGetter__'', ''__lookupSetter__'', ''isPrototypeOf'', ''propertyIsEnumerable'',
      ''toString'', ''valueOf'', ''__proto__'', ''toLocaleString'']"

definition object_proto :: prototypes where
  "object_proto \<kappa> k =
     (if k \<in> set object_prototype_names then JBuiltin (''Object.prototype.'' @ k) else JUndefined)"

text \<open>
  A parser that fails on every text, and a parser given by a table from texts to the
  values they denote (failing elsewhere): stand-ins for the library parsers on the texts
  of the examples.
\<close>

definition no_parse :: parser where
  "no_parse s = Inl ''unexpected token''"

definition parse_table :: "(string \<times> json) list \<Rightarrow> parser" where
  "parse_table tbl s = (case map_of tbl s of Some v \<Rightarrow> Inr v | None \<Rightarrow> Inl ''unexpected token'')"

definition param :: "string \<Rightarrow> string \<Rightarrow> json" where
  "param n l = JObj [(''name'', JStr n), (''in'', JStr l)]"

definition param_req :: "string \<Rightarrow> string \<Rightarrow> bool \<Rightarrow> json" where
  "param_req n l r = JObj [(''name'', JStr n), (''in'', JStr l), (''required'', JBool r)]"

definition one_operation :: "string \<Rightarrow> string \<Rightarrow> json \<Rightarrow> json" where
  "one_operation path method operation = JObj [(''paths'', JObj [(path, JObj [(method, operation)])])]"

definition doc_null_operation :: json where
  "doc_null_operation = one_operation ''/a'' ''get'' JNull"

definition text_null_operation :: string where
  \<open>text_null_operation = ''{"paths":{"/a":{"get":null}}}''\<close>

definition doc_one_param :: json where
  "doc_one_param = one_operation ''/a'' ''get''
     (JObj [(''parameters'', JArr [param_req ''q'' ''query'' True])])"

definition text_one_param :: string where
  \<open>text_one_param = ''{"paths":{"/a":{"get":{"parameters":[{"name":"q","in":"query","required":true}]}}}}''\<close>

definition doc_repeated_param :: json where
  "doc_repeated_param = one_operation ''/a'' ''get''
     (JObj [(''parameters'', JArr [param_req ''q'' ''query'' True, param_req ''q'' ''query'' False])])"

definition text_repeated_param :: string where
  \<open>text_repeated_param = ''{"paths":{"/a":{"get":{"parameters":[{"name":"q","in":"query","required":true},{"name":"q","in":"query","required":false}]}}}}''\<close>


definition doc_two_params :: json where
  "doc_two_params = one_operation ''/a'' ''get''
     (JObj [(''parameters'', JArr [param_req ''q'' ''query'' False, param ''id'' ''path'']),
            (''responses'', JObj [(''200'', JObj [])])])"

definition text_two_params :: string where
  \<open>text_two_params = ''{"paths":{"/a":{"get":{"parameters":[{"name":"q","in":"query","required":false},{"name":"id","in":"path"}],"responses":{"200":{}}}}}}''\<close>

definition doc_get_only :: json where
  "doc_get_only = one_operation ''/a'' ''get'' (JObj [])"

definition text_get_only :: string where
  \<open>text_get_only = ''{"paths":{"/a":{"get":{}}}}''\<close>

definition doc_get_summary :: json where
  "doc_get_summary = JObj [(''paths'', JObj [(''/a'', JObj [(''get'', JObj []), (''summary'', JStr ''List'')])])]"

definition text_get_summary :: string where
  \<open>text_get_summary = ''{"paths":{"/a":{"get":{},"summary":"List"}}}''\<close>

definition doc_get_constructor :: json where
  "doc_get_constructor =
     JObj [(''paths'', JObj [(''/a'', JObj [(''get'', JObj []),
        (''constructor'', JObj [(''parameters'', JArr [param ''q'' ''query''])])])])]"

definition text_get_constructor :: string where
  \<open>text_get_constructor = ''{"paths":{"/a":{"get":{},"constructor":{"parameters":[{"name":"q","in":"query"}]}}}}''\<close>

definition doc_null_get_summary :: json where
  "doc_null_get_summary =
     JObj [(''paths'', JObj [(''/a'', JObj [(''get'', JNull), (''summary'', JStr ''List'')])])]"

definition text_null_get_summary :: string where
  \<open>text_null_get_summary = ''{"paths":{"/a":{"get":null,"summary":"List"}}}''\<close>

definition doc_false_operation :: json where
  "doc_false_operation = one_operation ''/a'' ''get'' (JBool False)"

definition text_false_operation :: string where
  \<open>text_false_operation = ''{"paths":{"/a":{"get":false}}}''\<close>

definition doc_null_response :: json where
  "doc_null_response = one_operation ''/a'' ''get'' (JObj [(''responses'', JObj [(''200'', JNull)])])"

definition text_null_response :: string where
  \<open>text_null_response = ''{"paths":{"/a":{"get":{"responses":{"200":null}}}}}''\<close>

definition doc_object_name :: json where
  "doc_object_name = one_operation ''/a'' ''get''
     (JObj [(''parameters'', JArr [JObj [(''name'', JObj []), (''in'', JStr ''query'')]])])"

definition text_object_name :: string where
  \<open>text_object_name = ''{"paths":{"/a":{"get":{"parameters":[{"name":{},"in":"query"}]}}}}''\<close>

definition ref_param :: "string \<Rightarrow> json" where
  "ref_param r = JObj [(''$ref'', JStr r)]"

definition doc_path_level :: json where
  "doc_path_level =
     JObj [(''paths'', JObj [(''/a'', JObj
       [(''summary'', JStr ''List''),
        (''parameters'', JArr [ref_param ''#/components/parameters/page'']),
        (''get'', JObj [(''parameters'', JArr [ref_param ''#/components/parameters/limit'',
                                              ref_param ''#/components/parameters/offset'',
                                              param_req ''q'' ''query'' True]),
                       (''responses'', JObj [(''200'', JObj [])])])])])]"

definition text_path_level :: string where
  \<open>text_path_level = ''{"paths":{"/a":{"summary":"List","parameters":[{"$ref":"#/components/parameters/page"}],"get":{"parameters":[{"$ref":"#/components/parameters/limit"},{"$ref":"#/components/parameters/offset"},{"name":"q","in":"query","required":true}],"responses":{"200":{}}}}}}''\<close>

definition sample_json_parse :: parser where
  "sample_json_parse = parse_table
     [(text_null_operation, doc_null_operation), (text_one_param, doc_one_param),
      (text_repeated_param, doc_repeated_param), (text_two_params, doc_two_params),
      (text_get_only, doc_get_only), (text_get_summary, doc_get_summary),
      (text_get_constructor, doc_get_constructor), (text_null_get_summary, doc_null_get_summary),
      (text_path_level, doc_path_level), (text_false_operation, doc_false_operation),
      (text_null_response, doc_null_response), (text_object_name, doc_object_name)]"

section \<open>Strings\<close>

text \<open>
  A string is the list of its code units, here the units below 256. The operations are
  those of the JavaScript string and array methods the scripts call.
\<close>

definition is_upper :: "char \<Rightarrow> bool" where
  "is_upper c = (65 \<le> (of_char c :: nat) \<and> (of_char c :: nat) \<le> 90)"

definition is_lower :: "char \<Rightarrow> bool" where
  "is_lower c = (97 \<le> (of_char c :: nat) \<and> (of_char c :: nat) \<le> 122)"

definition is_digit :: "char \<Rightarrow> bool" where
  "is_digit c = (48 \<le> (of_char c :: nat) \<and> (of_char c :: nat) \<le> 57)"

definition lower_char :: "char \<Rightarrow> char" where
  "lower_char c =
     (let n = (of_char c :: nat)
      in if (65 \<le> n \<and> n \<le> 90) \<or> (192 \<le> n \<and> n \<le> 222 \<and> n \<noteq> 215) then char_of (n + 32) else c)"

definition toLowerCase :: "string \<Rightarrow> string" where
  "toLowerCase s = map lower_char s"

text \<open>White space as \<^verbatim>\<open>trim\<close> and the class \<^verbatim>\<open>\s\<close> see it.\<close>

definition is_space :: "char \<Rightarrow> bool" where
  "is_space c = (c \<in> set [CHR 0x09, CHR 0x0A, CHR 0x0B, CHR 0x0C, CHR 0x0D, CHR 0x20, CHR 0xA0])"

definition trim :: "string \<Rightarrow> string" where
  "trim s = rev (dropWhile is_space (rev (dropWhile is_space s)))"

definition startsWith :: "string \<Rightarrow> string \<Rightarrow> bool" where
  "startsWith s p = prefix p s"

definition endsWith :: "string \<Rightarrow> string \<Rightarrow> bool" where
  "endsWith s p = suffix p s"

definition includes_str :: "string \<Rightarrow> string \<Rightarrow> bool" where
  "includes_str s p = sublist p s"

text \<open>\<^verbatim>\<open>s.split(c)\<close> for a one-character separator: the empty string splits into one empty piece.\<close>

fun split_on :: "char \<Rightarrow> string \<Rightarrow> string list" where
  "split_on c [] = [[]]"
| "split_on c (x # xs) =
     (if x = c then [] # split_on c xs
      else (case split_on c xs of w # ws \<Rightarrow> (x # w) # ws | [] \<Rightarrow> [[x]]))"

fun join :: "string \<Rightarrow> string list \<Rightarrow> string" where
  "join sep [] = []"
| "join sep [x] = x"
| "join sep (x # y # ys) = x @ sep @ join sep (y # ys)"

text \<open>
  \<^verbatim>\<open>xs.slice(0, e)\<close>: a negative \<open>e\<close> counts from the end of the array, an \<open>e\<close> beyond the
  end stops at the end.
\<close>

definition slice_to :: "int \<Rightarrow> 'a list \<Rightarrow> 'a list" where
  "slice_to e xs = (if e < 0 then take (nat (int (length xs) + e)) xs else take (nat e) xs)"

text \<open>\<^verbatim>\<open>path.basename\<close> of a POSIX path: the part after the last slash, trailing slashes ignored.\<close>

definition basename :: "string \<Rightarrow> string" where
  "basename p = rev (takeWhile (\<lambda>c. c \<noteq> CHR ''/'') (dropWhile (\<lambda>c. c = CHR ''/'') (rev p)))"

section \<open>scripts/suggest-updates.js: the endpoint extractor\<close>

text \<open>An entry of \<^verbatim>\<open>apiDiffs\<close>: the fields \<^verbatim>\<open>file\<close> and \<^verbatim>\<open>changes\<close>.\<close>

record api_diff =
  diff_file :: string
  diff_changes :: "change list"

text \<open>The fields \<^verbatim>\<open>path\<close> and \<^verbatim>\<open>details\<close> of a change record, as the differ builds it.\<close>

fun change_path :: "change \<Rightarrow> string" where
  "change_path (new_endpoint p) = p"
| "change_path (new_method p m) = p"
| "change_path (parameter_changes p m ds) = p"
| "change_path (response_changes p m ds) = p"
| "change_path (removed_endpoint p) = p"
| "change_path (removed_method p m) = p"

fun pdelta_json :: "pdelta \<Rightarrow> json" where
  "pdelta_json (new_parameter n l) =
     JObj [(''type'', JStr ''new_parameter''), (''parameter'', n), (''location'', l)]"
| "pdelta_json (parameter_requirement_changed n l f t) =
     JObj [(''type'', JStr ''parameter_requirement_changed''), (''parameter'', n), (''location'', l),
           (''from'', f), (''to'', t)]"
| "pdelta_json (removed_parameter n l) =
     JObj [(''type'', JStr ''removed_parameter''), (''parameter'', n), (''location'', l)]"

fun rdelta_json :: "rdelta \<Rightarrow> json" where
  "rdelta_json (new_response_code c) = JObj [(''type'', JStr ''new_response_code''), (''code'', JStr c)]"
| "rdelta_json (removed_response_code c) = JObj [(''type'', JStr ''removed_response_code''), (''code'', JStr c)]"

fun change_details :: "change \<Rightarrow> json" where
  "change_details (parameter_changes p m ds) = JArr (map pdelta_json ds)"
| "change_details (response_changes p m ds) = JArr (map rdelta_json ds)"
| "change_details c = JUndefined"

definition typeof_object :: "json \<Rightarrow> bool" where
  "typeof_object v = (case v of JNull \<Rightarrow> True | JArr xs \<Rightarrow> True | JObj kvs \<Rightarrow> True | _ \<Rightarrow> False)"

text \<open>\<^verbatim>\<open>endpoints.add(x)\<close> on a Set, kept as the list of its members in insertion order.\<close>

definition set_add :: "string list \<Rightarrow> string \<Rightarrow> string list" where
  "set_add xs x = (if x \<in> set xs then xs else xs @ [x])"

definition set_add_all :: "string list \<Rightarrow> string list \<Rightarrow> string list" where
  "set_add_all xs ys = foldl set_add xs ys"

text \<open>\<^verbatim>\<open>replace(/^\/paths/, '')\<close>.\<close>

definition strip_paths_prefix :: "string \<Rightarrow> string" where
  "strip_paths_prefix s = (if prefix ''/paths'' s then drop 6 s else s)"

text \<open>
  \<^verbatim>\<open>replace(/\/(get|post|put|delete|patch|head|options)$/, '')\<close>: a match is a slash, a method
  name and the end of the string, so it starts at the last slash.
\<close>

definition http_methods :: "string list" where
  "http_methods = [''get'', ''post'', ''put'', ''delete'', ''patch'', ''head'', ''options'']"

definition strip_method_suffix :: "string \<Rightarrow> string" where
  "strip_method_suffix s =
     (case find (\<lambda>m. suffix (CHR ''/'' # m) s) http_methods of
        Some m \<Rightarrow> take (length s - Suc (length m)) s
      | None \<Rightarrow> s)"

text \<open>
  \<^verbatim>\<open>replace(/\/\{[^}]+\}(\/.*)?$/, '')\<close>: the leftmost position where a slash, a non-empty
  braced group and then either nothing or a slash and one line of text up to the end
  follow; everything from there on is dropped. The dot does not match a line terminator.
\<close>

definition is_line_terminator :: "char \<Rightarrow> bool" where
  "is_line_terminator c = (c = CHR 0x0A \<or> c = CHR 0x0D)"

definition trailing_params_at :: "string \<Rightarrow> bool" where
  "trailing_params_at s =
     (case s of
        a # b # r \<Rightarrow>
          a = CHR ''/'' \<and> b = CHR ''{'' \<and>
          (let body = takeWhile (\<lambda>c. c \<noteq> CHR ''}'') r; after = dropWhile (\<lambda>c. c \<noteq> CHR ''}'') r
           in body \<noteq> [] \<and> after \<noteq> [] \<and>
              (tl after = [] \<or> (hd (tl after) = CHR ''/'' \<and> \<not> list_ex is_line_terminator (tl (tl after)))))
      | _ \<Rightarrow> False)"

fun strip_trailing_params :: "string \<Rightarrow> string" where
  "strip_trailing_params [] = []"
| "strip_trailing_params (c # r) =
     (if trailing_params_at (c # r) then [] else c # strip_trailing_params r)"

text \<open>
  \<^verbatim>\<open>detailsStr.match(/["']([\/][a-zA-Z0-9\/_\-{}]+)["']/g)\<close>: the matches from left to right,
  each a quote, a slash, the longest run of characters of the class, which must not be
  empty, and a quote; the search goes on after the closing quote.
\<close>

definition is_quote :: "char \<Rightarrow> bool" where
  "is_quote c = (c = CHR 0x22 \<or> c = CHR 0x27)"

definition is_path_char :: "char \<Rightarrow> bool" where
  "is_path_char c = (is_lower c \<or> is_upper c \<or> is_digit c
     \<or> c \<in> set [CHR ''/'', CHR ''_'', CHR ''-'', CHR ''{'', CHR ''}''])"

definition quoted_path_at :: "string \<Rightarrow> string option" where
  "quoted_path_at s =
     (case s of
        q # sl # r \<Rightarrow>
          (let run = takeWhile is_path_char r; after = dropWhile is_path_char r
           in if is_quote q \<and> sl = CHR ''/'' \<and> run \<noteq> [] \<and> after \<noteq> [] \<and> is_quote (hd after)
              then Some (q # sl # run @ [hd after]) else None)
      | _ \<Rightarrow> None)"

function path_matches :: "string \<Rightarrow> string list" where
  "path_matches [] = []"
| "path_matches (c # r) =
     (case quoted_path_at (c # r) of
        Some m \<Rightarrow> m # path_matches (drop (length m) (c # r))
      | None \<Rightarrow> path_matches r)"
  by pat_completeness auto
termination
proof (relation "measure length")
  fix c r m
  assume "quoted_path_at (c # r) = Some m"
  then have "m \<noteq> []"
    by (auto simp: quoted_path_at_def Let_def split: list.splits if_splits)
  then show "(drop (length m) (c # r), c # r) \<in> measure length"
    by (cases m) simp_all
qed simp_all

text \<open>
  \<^verbatim>\<open>detailsStr.match(/"operationId":\s*"([^"]+)"/)\<close>: the group of the leftmost match.
\<close>

definition operation_id_at :: "string \<Rightarrow> string option" where
  "operation_id_at s =
     (if prefix [CHR 0x22, CHR ''o'', CHR ''p'', CHR ''e'', CHR ''r'', CHR ''a'', CHR ''t'', CHR ''i'',
                 CHR ''o'', CHR ''n'', CHR ''I'', CHR ''d'', CHR 0x22, CHR '':''] s
      then (case dropWhile is_space (drop 14 s) of
              q # r \<Rightarrow>
                (let v = takeWhile (\<lambda>c. c \<noteq> CHR 0x22) r; after = dropWhile (\<lambda>c. c \<noteq> CHR 0x22) r
                 in if q = CHR 0x22 \<and> v \<noteq> [] \<and> after \<noteq> [] then Some v else None)
            | [] \<Rightarrow> None)
      else None)"

fun operation_id_match :: "string \<Rightarrow> string option" where
  "operation_id_match [] = operation_id_at []"
| "operation_id_match (c # r) =
     (case operation_id_at (c # r) of Some v \<Rightarrow> Some v | None \<Rightarrow> operation_id_match r)"

text \<open>
  \<^verbatim>\<open>operationId.replace(/([A-Z])/g, '-$1').toLowerCase().split(/[-_]/).filter(s => s.length > 2)\<close>.
\<close>

definition dash_capitals :: "string \<Rightarrow> string" where
  "dash_capitals s = concat (map (\<lambda>c. if is_upper c then [CHR ''-'', c] else [c]) s)"

fun split_dash_underscore :: "string \<Rightarrow> string list" where
  "split_dash_underscore [] = [[]]"
| "split_dash_underscore (x # xs) =
     (if x = CHR ''-'' \<or> x = CHR ''_'' then [] # split_dash_underscore xs
      else (case split_dash_underscore xs of w # ws \<Rightarrow> (x # w) # ws | [] \<Rightarrow> [[x]]))"

definition operation_segments :: "string \<Rightarrow> string list" where
  "operation_segments operationId =
     filter (\<lambda>s. length s > 2) (split_dash_underscore (toLowerCase (dash_capitals operationId)))"

text \<open>The identifiers one change record adds to the set; \<open>stringify\<close> is \<^verbatim>\<open>JSON.stringify\<close>.\<close>

definition path_segments :: "string \<Rightarrow> string list" where
  "path_segments s = filter (\<lambda>part. part \<noteq> []) (split_on CHR ''/'' s)"

definition partial_paths :: "string list \<Rightarrow> string list" where
  "partial_paths segments =
     filter (\<lambda>partialPath. CHR ''{'' \<notin> set partialPath)
       (map (\<lambda>i. CHR ''/'' # join ''/'' (take i segments)) (rev [2..<Suc (length segments)]))"

definition path_identifiers :: "string \<Rightarrow> string list" where
  "path_identifiers path =
     (let cleanPath = strip_method_suffix (strip_paths_prefix path)
      in if startsWith cleanPath ''/'' \<and> length cleanPath > 1
         then (let withoutParams = strip_trailing_params cleanPath;
                   segments = path_segments cleanPath
               in [cleanPath]
                  @ (if withoutParams \<noteq> cleanPath \<and> length withoutParams > 1 then [withoutParams] else [])
                  @ (if length segments > 1 then partial_paths segments else []))
         else [])"

definition details_identifiers :: "string \<Rightarrow> string list" where
  "details_identifiers detailsStr =
     filter (\<lambda>path. length path > 3 \<and> CHR ''/'' \<in> set path)
       (map (filter (\<lambda>c. \<not> is_quote c)) (path_matches detailsStr))
     @ (case operation_id_match detailsStr of
          Some operationId \<Rightarrow>
            (if operation_segments operationId \<noteq> []
             then [CHR ''/'' # join ''/'' (operation_segments operationId)] else [])
        | None \<Rightarrow> [])"

definition extract_change :: "(json \<Rightarrow> string) \<Rightarrow> string list \<Rightarrow> change \<Rightarrow> string list" where
  "extract_change stringify endpoints change =
     set_add_all
       (if change_path change \<noteq> [] then set_add_all endpoints (path_identifiers (change_path change))
        else endpoints)
       (if truthy (change_details change) \<and> typeof_object (change_details change)
        then details_identifiers (stringify (change_details change)) else [])"

definition single_letter_path :: "string \<Rightarrow> bool" where
  "single_letter_path e = (case e of [a, b] \<Rightarrow> a = CHR ''/'' \<and> is_lower b | _ \<Rightarrow> False)"

definition keep_endpoint :: "string \<Rightarrow> bool" where
  "keep_endpoint endpoint =
     (length endpoint > 3 \<and> \<not> single_letter_path endpoint
      \<and> endpoint \<noteq> ''/api'' \<and> endpoint \<noteq> ''/v1'' \<and> endpoint \<noteq> ''/v2'')"

definition extractApiEndpoints :: "(json \<Rightarrow> string) \<Rightarrow> api_diff \<Rightarrow> string list" where
  "extractApiEndpoints stringify d =
     filter keep_endpoint (foldl (extract_change stringify) [] (diff_changes d))"

section \<open>scripts/suggest-updates.js: the ranker\<close>

text \<open>
  The file system is a parameter: \<open>readFile p\<close> is the text of the file at \<open>p\<close>, or \<open>None\<close>
  when \<^verbatim>\<open>fs.readFileSync\<close> throws.
\<close>

type_synonym file_reader = "string \<Rightarrow> string option"

text \<open>
  \<^verbatim>\<open>replace(/^\//, '')\<close> and \<^verbatim>\<open>replace(/\{[^}]+\}/g, '')\<close>: the latter removes, from left to
  right, every brace followed by the longest run without a closing brace, which must not
  be empty, and the closing brace.
\<close>

definition strip_leading_slash :: "string \<Rightarrow> string" where
  "strip_leading_slash s = (case s of c # r \<Rightarrow> if c = CHR ''/'' then r else s | [] \<Rightarrow> [])"

function remove_braced :: "string \<Rightarrow> string" where
  "remove_braced [] = []"
| "remove_braced (c # r) =
     (if c = CHR ''{'' \<and> takeWhile (\<lambda>x. x \<noteq> CHR ''}'') r \<noteq> [] \<and> dropWhile (\<lambda>x. x \<noteq> CHR ''}'') r \<noteq> []
      then remove_braced (tl (dropWhile (\<lambda>x. x \<noteq> CHR ''}'') r))
      else c # remove_braced r)"
  by pat_completeness auto
termination
proof (relation "measure length")
  fix c :: char and r :: string
  have "length (dropWhile (\<lambda>x. x \<noteq> CHR ''}'') r) \<le> length r"
    by (rule length_dropWhile_le)
  then have "length (tl (dropWhile (\<lambda>x. x \<noteq> CHR ''}'') r)) \<le> length r"
    by simp
  then show "(tl (dropWhile (\<lambda>x. x \<noteq> CHR ''}'') r), c # r) \<in> measure length"
    by simp
qed simp_all

definition endpoint_patterns :: "string \<Rightarrow> string list" where
  "endpoint_patterns endpoint =
     [endpoint, strip_leading_slash endpoint, remove_braced endpoint,
      join ''/'' (path_segments endpoint)]
     @ filter (\<lambda>part. part \<noteq> [] \<and> \<not> startsWith part ''{'' \<and> length part > 2)
         (split_on CHR ''/'' endpoint)"

text \<open>The array \<^verbatim>\<open>matches\<close> built for one file, from its lower-cased text.\<close>

definition file_matches :: "string list \<Rightarrow> string \<Rightarrow> string list" where
  "file_matches changedEndpoints content =
     concat (map (\<lambda>endpoint.
        concat (map (\<lambda>pattern.
           if pattern \<noteq> [] \<and> includes_str content (toLowerCase pattern) then [endpoint] else [])
         (endpoint_patterns endpoint)))
      changedEndpoints)"

definition is_relevant :: "file_reader \<Rightarrow> string list \<Rightarrow> string \<Rightarrow> bool" where
  "is_relevant readFile changedEndpoints testFile =
     (case readFile testFile of
        None \<Rightarrow> False
      | Some text \<Rightarrow> file_matches changedEndpoints (toLowerCase text) \<noteq> [])"

text \<open>\<^verbatim>\<open>endpointMatches.get(f)?.length || 0\<close>, the number of distinct identifiers matched.\<close>

definition match_count :: "file_reader \<Rightarrow> string list \<Rightarrow> string \<Rightarrow> nat" where
  "match_count readFile changedEndpoints testFile =
     (case readFile testFile of
        None \<Rightarrow> 0
      | Some text \<Rightarrow> length (set_add_all [] (file_matches changedEndpoints (toLowerCase text))))"

definition maxFiles :: "nat \<Rightarrow> nat" where
  "maxFiles n = min 5 (max 2 (15000 div max n 1))"

definition is_api_test_name :: "string \<Rightarrow> bool" where
  "is_api_test_name testFile =
     (let fileName = toLowerCase (basename testFile)
      in includes_str fileName ''api'' \<or> includes_str fileName ''endpoint''
         \<or> includes_str fileName ''integration'' \<or> includes_str fileName ''service'')"

text \<open>\<^verbatim>\<open>a || b\<close> where \<open>a\<close> is an array: an array, even an empty one, is truthy.\<close>

definition array_or :: "'a list \<Rightarrow> 'a list \<Rightarrow> 'a list" where
  "array_or a b = a"

text \<open>
  The comparator orders by the number of matches, larger first; the sort is stable.
\<close>

definition findRelevantTestFiles ::
    "(json \<Rightarrow> string) \<Rightarrow> file_reader \<Rightarrow> string list \<Rightarrow> api_diff \<Rightarrow> string list" where
  "findRelevantTestFiles stringify readFile allTestFiles d =
     (let changedEndpoints = extractApiEndpoints stringify d
      in if length changedEndpoints = 0
         then take (min 3 (length allTestFiles)) allTestFiles
         else
           (let relevantFiles = filter (is_relevant readFile changedEndpoints) allTestFiles;
                sortedFiles = sort_key (\<lambda>f. - int (match_count readFile changedEndpoints f)) relevantFiles
            in if length sortedFiles = 0
               then (let apiTestFiles = filter is_api_test_name allTestFiles
                     in array_or (take (min 2 (length apiTestFiles)) apiTestFiles) (take 2 allTestFiles))
               else take (maxFiles (length allTestFiles)) sortedFiles))"

section \<open>scripts/suggest-updates.js: the context budgeter\<close>

definition maxTokensPerFile :: nat where
  "maxTokensPerFile = 1000"

definition maxTotalTokens :: nat where
  "maxTotalTokens = 8000"

text \<open>
  The comparator of the first sort, \<^verbatim>\<open>aSize - bSize\<close>, or 0 when \<^verbatim>\<open>fs.statSync\<close> throws on
  either file; \<open>statSize p\<close> is the size of the file at \<open>p\<close>, or \<open>None\<close> when it throws.
\<close>

definition size_comparator :: "(string \<Rightarrow> nat option) \<Rightarrow> string \<Rightarrow> string \<Rightarrow> int" where
  "size_comparator statSize a b =
     (case statSize a of
        None \<Rightarrow> 0
      | Some aSize \<Rightarrow> (case statSize b of None \<Rightarrow> 0 | Some bSize \<Rightarrow> int aSize - int bSize))"

text \<open>
  \<^verbatim>\<open>Array.prototype.sort\<close> belongs to the engine, not to the repository: it is a parameter
  of the model, taking the comparator and the array. The language standard asks this
  much of it: when the comparator is consistent, as the difference of a numeric key is,
  the result is the stable sort; when it is not (here, when \<^verbatim>\<open>fs.statSync\<close> throws on some
  files and not on others) the order is the engine's own.
\<close>

type_synonym engine_sort = "(string \<Rightarrow> string \<Rightarrow> int) \<Rightarrow> string list \<Rightarrow> string list"

definition conforming_sort :: "engine_sort \<Rightarrow> bool" where
  "conforming_sort array_sort =
     (\<forall>cmp (key :: string \<Rightarrow> nat) xs.
        (\<forall>a \<in> set xs. \<forall>b \<in> set xs. cmp a b = int (key a) - int (key b))
          \<longrightarrow> array_sort cmp xs = sort_key key xs)"

definition is_declaration :: "string \<Rightarrow> bool" where
  "is_declaration line =
     (startsWith (trim line) ''import '' \<or> startsWith (trim line) ''const ''
      \<or> startsWith (trim line) ''require('')"

text \<open>The smart truncation of a file longer than \<open>maxTokensPerFile\<close> characters.\<close>

definition truncate_content :: "string \<Rightarrow> string" where
  "truncate_content content =
     (let lines = split_on CHR 0x0A content;
          importLines = take 10 (filter is_declaration lines);
          codeLines = filter (\<lambda>line. \<not> is_declaration line) lines;
          maxCodeLines = (int maxTokensPerFile - int (length (join [CHR 0x0A] importLines))) div 50;
          selectedCode = join [CHR 0x0A] (slice_to maxCodeLines codeLines)
      in join [CHR 0x0A] importLines @ [CHR 0x0A, CHR 0x0A] @ selectedCode
         @ [CHR 0x0A, CHR 0x0A] @ ''// ...(truncated)'')"

definition truncatedContent :: "string \<Rightarrow> string" where
  "truncatedContent content =
     (if length content > maxTokensPerFile then truncate_content content else content)"

text \<open>\<^verbatim>\<open>Math.ceil(truncatedContent.length / 3.5)\<close>.\<close>

definition estimatedTokens :: "string \<Rightarrow> nat" where
  "estimatedTokens content = (2 * length (truncatedContent content) + 6) div 7"

definition detectTestFramework :: "string \<Rightarrow> string" where
  "detectTestFramework content =
     (if includes_str content ''describe('' \<and> includes_str content ''it('' then ''Jest/Mocha''
      else if includes_str content ''test('' then ''Jest''
      else if includes_str content ''@Test'' then ''JUnit''
      else if includes_str content ''def test_'' then ''pytest''
      else ''Unknown'')"

text \<open>
  The loop over the sorted files, from the token count reached so far: the files whose
  text is pushed, each with its text. \<open>relative\<close> is \<^verbatim>\<open>path.relative\<close>.
\<close>

fun read_loop :: "file_reader \<Rightarrow> string list \<Rightarrow> nat \<Rightarrow> (string \<times> string) list" where
  "read_loop readFile [] totalTokens = []"
| "read_loop readFile (filePath # rest) totalTokens =
     (if totalTokens \<ge> maxTotalTokens then []
      else (case readFile filePath of
              None \<Rightarrow> read_loop readFile rest totalTokens
            | Some content \<Rightarrow>
                (filePath, content) # read_loop readFile rest (totalTokens + estimatedTokens content)))"

definition file_entry :: "(string \<Rightarrow> string \<Rightarrow> string) \<Rightarrow> string \<Rightarrow> string \<times> string \<Rightarrow> string" where
  "file_entry relative testRepoPath e =
     [CHR 0x0A] @ ''=== '' @ basename (fst e) @ '' ==='' @ [CHR 0x0A]
     @ ''Path: '' @ relative testRepoPath (fst e) @ [CHR 0x0A]
     @ ''Framework: '' @ detectTestFramework (snd e) @ [CHR 0x0A]
     @ truncatedContent (snd e) @ [CHR 0x0A]"

definition sortedFiles :: "engine_sort \<Rightarrow> (string \<Rightarrow> nat option) \<Rightarrow> string list \<Rightarrow> string list" where
  "sortedFiles array_sort statSize testFiles = array_sort (size_comparator statSize) testFiles"

definition included_files ::
    "engine_sort \<Rightarrow> (string \<Rightarrow> nat option) \<Rightarrow> file_reader \<Rightarrow> string list \<Rightarrow> (string \<times> string) list" where
  "included_files array_sort statSize readFile testFiles =
     read_loop readFile (sortedFiles array_sort statSize testFiles) 0"

definition totalTokens :: "(string \<times> string) list \<Rightarrow> nat" where
  "totalTokens included = sum_list (map (\<lambda>e. estimatedTokens (snd e)) included)"

definition readTestFiles ::
    "engine_sort \<Rightarrow> (string \<Rightarrow> nat option) \<Rightarrow> file_reader \<Rightarrow> (string \<Rightarrow> string \<Rightarrow> string) \<Rightarrow> string list \<Rightarrow> string \<Rightarrow> string" where
  "readTestFiles array_sort statSize readFile relative testFiles testRepoPath =
     (let fileContents = map (file_entry relative testRepoPath)
                           (included_files array_sort statSize readFile testFiles)
      in if length fileContents = 0
         then ''No test files found in the test repository. Please create new test files following standard testing patterns.''
         else join [CHR 0x0A] fileContents)"

section \<open>Sample inputs of the scripts\<close>

definition numbered_files :: "nat \<Rightarrow> string list" where
  "numbered_files n = map (\<lambda>i. ''test/t'' @ dec i @ ''.test.js'') [0..<n]"

definition stringify_unused :: "json \<Rightarrow> string" where
  "stringify_unused v = ''[]''"

definition no_files :: file_reader where
  "no_files p = None"

definition sample_files :: file_reader where
  "sample_files p = map_of [(''test/users.test.js'', ''GET /Users''),
                            (''test/orders.test.js'', ''GET /Orders'')] p"

definition users_diff :: api_diff where
  "users_diff = \<lparr>diff_file = ''openapi.yaml'', diff_changes = [new_endpoint ''/users/{id}'']\<rparr>"

definition pets_diff :: api_diff where
  "pets_diff = \<lparr>diff_file = ''openapi.yaml'', diff_changes = [new_endpoint ''/pets'']\<rparr>"

definition v1_diff :: api_diff where
  "v1_diff = \<lparr>diff_file = ''openapi.yaml'', diff_changes = [new_endpoint ''/v1'']\<rparr>"

definition long_line :: string where
  "long_line = replicate 28000 CHR ''a''"

text \<open>A conforming engine for the examples: insertion sort, which is stable.\<close>

fun insert_by :: "(string \<Rightarrow> string \<Rightarrow> int) \<Rightarrow> string \<Rightarrow> string list \<Rightarrow> string list" where
  "insert_by cmp x [] = [x]"
| "insert_by cmp x (y # ys) = (if cmp x y \<le> 0 then x # y # ys else y # insert_by cmp x ys)"

definition insertion_sort :: engine_sort where
  "insertion_sort cmp xs = foldr (insert_by cmp) xs []"

definition big_reader :: file_reader where
  "big_reader p = Some long_line"

definition big_stat :: "string \<Rightarrow> nat option" where
  "big_stat p = Some 28000"

definition sample_size :: "string \<Rightarrow> nat" where
  "sample_size p = (if p = ''test/users.test.js'' then 10 else 11)"

definition sample_stat :: "string \<Rightarrow> nat option" where
  "sample_stat p = Some (sample_size p)"

definition long_declaration :: string where
  "long_declaration = ''const '' @ replicate 1100 CHR ''x''"

definition negative_budget_file :: string where
  "negative_budget_file =
     long_declaration @ [CHR 0x0A] @ ''A'' @ [CHR 0x0A] @ ''B'' @ [CHR 0x0A] @ ''C'' @ [CHR 0x0A] @ ''D''"
section \<open>Properties of the differ\<close>

lemma bind_Inr [simp]: "bind (Inr v) f = f v"
  by (simp add: bind_def)

lemma bind_Inl [simp]: "bind (Inl e) f = Inl e"
  by (simp add: bind_def)

lemma bind_eq_Inr: "(bind r f = Inr y) = (\<exists>v. r = Inr v \<and> f v = Inr y)"
  by (cases r) simp_all

lemma for_each_pure:
  "(\<And>x. x \<in> set xs \<Longrightarrow> f x = Inr (g x)) \<Longrightarrow> for_each f xs = Inr (concat (map g xs))"
  by (induction xs) simp_all

subsection \<open>Reads that cannot throw\<close>

lemma truthy_non_null: "truthy v \<Longrightarrow> non_null v"
  by (cases v) simp_all

lemma is_obj_truthy: "is_obj v \<Longrightarrow> truthy v"
  by (cases v) simp_all

lemma or_default_non_null: "non_null d \<Longrightarrow> non_null (or_default v d)"
  by (simp add: or_default_def truthy_non_null)

lemma get_prop_rd: "non_null v \<Longrightarrow> get_prop proto v k = Inr (rd proto v k)"
  by (cases v) (simp_all add: rd_def)

lemma keys_non_null: "k \<in> set (enum_keys v) \<Longrightarrow> non_null v"
  by (cases v) simp_all

lemma rd_own: "k \<in> fst ` set kvs \<Longrightarrow> rd proto (JObj kvs) k \<in> snd ` set kvs"
proof -
  assume "k \<in> fst ` set kvs"
  then obtain v where v: "map_of kvs k = Some v"
    by (cases "map_of kvs k") (auto simp: map_of_eq_None_iff)
  then have "(k, v) \<in> set kvs" by (rule map_of_SomeD)
  then show ?thesis using v by (force simp: rd_def)
qed

lemma rd_absent: "k \<notin> fst ` set kvs \<Longrightarrow> rd proto (JObj kvs) k = proto KObject k"
  by (simp add: rd_def map_of_eq_None_iff [THEN iffD2])

lemma rd_map_of: "map_of kvs k = Some v \<Longrightarrow> rd proto (JObj kvs) k = v"
  by (simp add: rd_def)

lemma same_param_rd:
  "non_null p \<Longrightarrow> non_null q \<Longrightarrow> same_param proto p q = Inr (same_key proto p q)"
  by (simp add: same_param_def same_key_def get_prop_rd)

lemma find_param_rd:
  "list_all non_null ps \<Longrightarrow> non_null q \<Longrightarrow> find_param proto ps q = Inr (found_param proto ps q)"
  by (induction ps) (simp_all add: found_param_def same_param_rd)

lemma new_param_step_rd:
  assumes "list_all non_null olds" "non_null q"
  shows "new_param_step proto (JArr olds) q = Inr (added_deltas proto olds q)"
  using assms
  by (simp add: new_param_step_def added_deltas_def find_param_rd get_prop_rd truthy_non_null)

lemma removed_param_step_rd:
  assumes "list_all non_null news" "non_null p"
  shows "removed_param_step proto (JArr news) p = Inr (removed_deltas proto news p)"
  using assms
  by (simp add: removed_param_step_def removed_deltas_def find_param_rd get_prop_rd)

lemma compareParameters_rd:
  assumes "params_safe a" "params_safe b"
  shows "compareParameters proto a b = Inr (param_deltas proto (params_list a) (params_list b))"
proof -
  obtain olds news where a: "a = JArr olds" "list_all non_null olds"
    and b: "b = JArr news" "list_all non_null news"
    using assms by (cases a; cases b) (simp_all add: params_safe_def)
  have f: "for_each (new_param_step proto (JArr olds)) news
             = Inr (concat (map (added_deltas proto olds) news))"
    by (rule for_each_pure) (use a b in \<open>simp add: new_param_step_rd list_all_iff\<close>)
  have g: "for_each (removed_param_step proto (JArr news)) olds
             = Inr (concat (map (removed_deltas proto news) olds))"
    by (rule for_each_pure) (use a b in \<open>simp add: removed_param_step_rd list_all_iff\<close>)
  show ?thesis
    by (simp add: compareParameters_def a b f g param_deltas_def params_list_def)
qed

lemma compareResponses_rd:
  assumes "non_null a" "non_null b"
  shows "compareResponses proto a b = Inr (code_deltas proto a b)"
proof -
  have f: "for_each (new_code_step proto a) (enum_keys b)
      = Inr (concat (map (\<lambda>c. if \<not> truthy (rd proto a c) then [new_response_code c] else [])
               (enum_keys b)))"
    by (rule for_each_pure) (simp add: new_code_step_def get_prop_rd assms)
  have g: "for_each (removed_code_step proto b) (enum_keys a)
      = Inr (concat (map (\<lambda>c. if \<not> truthy (rd proto b c) then [removed_response_code c] else [])
               (enum_keys a)))"
    by (rule for_each_pure) (simp add: removed_code_step_def get_prop_rd assms)
  show ?thesis by (simp add: compareResponses_def f g code_deltas_def)
qed

lemma responses_non_null: "non_null (responses_of proto v)"
  by (simp add: responses_of_def or_default_non_null)

lemma new_method_step_rd:
  assumes "non_null oldItem" "non_null newItem"
    and "truthy (rd proto oldItem m) \<Longrightarrow>
           operation_safe proto (rd proto oldItem m) \<and> operation_safe proto (rd proto newItem m)"
  shows "new_method_step proto oldItem newItem path m
           = Inr (forward_method proto oldItem newItem path m)"
proof (cases "truthy (rd proto oldItem m)")
  case False
  then show ?thesis
    by (simp add: new_method_step_def forward_method_def get_prop_rd assms(1))
next
  case True
  then have s: "operation_safe proto (rd proto oldItem m)" "operation_safe proto (rd proto newItem m)"
    using assms(3) by simp_all
  have p: "compareParameters proto (parameters_of proto (rd proto oldItem m))
             (parameters_of proto (rd proto newItem m))
           = Inr (param_deltas proto (params_list (parameters_of proto (rd proto oldItem m)))
                    (params_list (parameters_of proto (rd proto newItem m))))"
    using s by (simp add: compareParameters_rd operation_safe_def)
  have r: "compareResponses proto (responses_of proto (rd proto oldItem m))
             (responses_of proto (rd proto newItem m))
           = Inr (code_deltas proto (responses_of proto (rd proto oldItem m))
                    (responses_of proto (rd proto newItem m)))"
    by (simp add: compareResponses_rd responses_non_null)
  have n: "non_null (rd proto oldItem m)" "non_null (rd proto newItem m)"
    using s by (simp_all add: operation_safe_def)
  show ?thesis
    using True p r
    by (simp add: new_method_step_def forward_method_def get_prop_rd assms(1,2) n
          operation_changes_def parameters_of_def [symmetric] responses_of_def [symmetric])
qed

lemma removed_method_step_rd:
  "non_null newItem \<Longrightarrow>
   removed_method_step proto newItem path m = Inr (backward_method proto newItem path m)"
  by (simp add: removed_method_step_def backward_method_def get_prop_rd)

lemma new_path_step_rd:
  assumes "non_null oldSpec" "non_null newPaths"
    and "\<And>m. truthy (rd proto oldSpec ''paths'') \<Longrightarrow>
           truthy (rd proto (rd proto oldSpec ''paths'') path) \<Longrightarrow>
           m \<in> set (enum_keys (rd proto newPaths path)) \<Longrightarrow>
           truthy (rd proto (rd proto (rd proto oldSpec ''paths'') path) m) \<Longrightarrow>
           operation_safe proto (rd proto (rd proto (rd proto oldSpec ''paths'') path) m)
           \<and> operation_safe proto (rd proto (rd proto newPaths path) m)"
  shows "new_path_step proto oldSpec newPaths path
           = Inr (forward_path proto (rd proto oldSpec ''paths'') newPaths path)"
proof (cases "truthy (rd proto oldSpec ''paths'') \<and> truthy (rd proto (rd proto oldSpec ''paths'') path)")
  case False
  then show ?thesis
    by (auto simp: new_path_step_def forward_path_def get_prop_rd assms(1) truthy_non_null)
next
  case True
  let ?old = "rd proto (rd proto oldSpec ''paths'') path" and ?new = "rd proto newPaths path"
  have f: "for_each (new_method_step proto ?old ?new path) (enum_keys ?new)
             = Inr (concat (map (forward_method proto ?old ?new path) (enum_keys ?new)))"
  proof (rule for_each_pure)
    fix m assume m: "m \<in> set (enum_keys ?new)"
    show "new_method_step proto ?old ?new path m = Inr (forward_method proto ?old ?new path m)"
      by (rule new_method_step_rd) (use True m assms(3) keys_non_null in \<open>auto simp: truthy_non_null\<close>)
  qed
  show ?thesis
    using True f
    by (simp add: new_path_step_def forward_path_def get_prop_rd assms(1,2) truthy_non_null)
qed

lemma removed_path_step_rd:
  assumes "non_null newSpec" "non_null oldPaths"
  shows "removed_path_step proto newSpec oldPaths path
           = Inr (backward_path proto (rd proto newSpec ''paths'') oldPaths path)"
proof (cases "truthy (rd proto newSpec ''paths'') \<and> truthy (rd proto (rd proto newSpec ''paths'') path)")
  case False
  then show ?thesis
    by (auto simp: removed_path_step_def backward_path_def get_prop_rd assms(1) truthy_non_null)
next
  case True
  let ?new = "rd proto (rd proto newSpec ''paths'') path" and ?old = "rd proto oldPaths path"
  have f: "for_each (removed_method_step proto ?new path) (enum_keys ?old)
             = Inr (concat (map (backward_method proto ?new path) (enum_keys ?old)))"
    by (rule for_each_pure) (use True in \<open>simp add: removed_method_step_rd truthy_non_null\<close>)
  show ?thesis
    using True f
    by (simp add: removed_path_step_def backward_path_def get_prop_rd assms truthy_non_null)
qed

lemma paths_non_null: "non_null (paths_of proto v)"
  by (simp add: paths_of_def or_default_non_null)

lemma paths_of_truthy: "truthy (rd proto v ''paths'') \<Longrightarrow> rd proto v ''paths'' = paths_of proto v"
  by (simp add: paths_of_def or_default_def)

lemma compare_specs_rd:
  assumes "non_null A" "non_null B"
    and "\<And>path m. path \<in> set (enum_keys (paths_of proto B)) \<Longrightarrow>
           truthy (rd proto A ''paths'') \<Longrightarrow>
           truthy (rd proto (paths_of proto A) path) \<Longrightarrow>
           m \<in> set (enum_keys (rd proto (paths_of proto B) path)) \<Longrightarrow>
           truthy (rd proto (rd proto (paths_of proto A) path) m) \<Longrightarrow>
           operation_safe proto (rd proto (rd proto (paths_of proto A) path) m)
           \<and> operation_safe proto (rd proto (rd proto (paths_of proto B) path) m)"
  shows "compare_specs proto A B = Inr (plain_diff proto A B)"
proof -
  have f: "for_each (new_path_step proto A (paths_of proto B)) (enum_keys (paths_of proto B))
      = Inr (concat (map (forward_path proto (rd proto A ''paths'') (paths_of proto B))
               (enum_keys (paths_of proto B))))"
  proof (rule for_each_pure)
    fix path assume p: "path \<in> set (enum_keys (paths_of proto B))"
    show "new_path_step proto A (paths_of proto B) path
            = Inr (forward_path proto (rd proto A ''paths'') (paths_of proto B) path)"
    proof (rule new_path_step_rd [OF assms(1) paths_non_null])
      fix m
      assume t: "truthy (rd proto A ''paths'')"
        and "truthy (rd proto (rd proto A ''paths'') path)"
        and "m \<in> set (enum_keys (rd proto (paths_of proto B) path))"
        and "truthy (rd proto (rd proto (rd proto A ''paths'') path) m)"
      then show "operation_safe proto (rd proto (rd proto (rd proto A ''paths'') path) m)
           \<and> operation_safe proto (rd proto (rd proto (paths_of proto B) path) m)"
        using assms(3) [of path m] p unfolding paths_of_truthy [OF t] by blast
    qed
  qed
  have g: "for_each (removed_path_step proto B (paths_of proto A)) (enum_keys (paths_of proto A))
      = Inr (concat (map (backward_path proto (rd proto B ''paths'') (paths_of proto A))
               (enum_keys (paths_of proto A))))"
    by (rule for_each_pure) (simp add: removed_path_step_rd assms paths_non_null)
  show ?thesis
    using f g
    by (simp add: compare_specs_def plain_diff_def get_prop_rd assms(1,2) paths_of_def [symmetric])
qed



subsection \<open>Members of a well-shaped document\<close>

lemma well_shaped_paths:
  "well_shaped proto X \<Longrightarrow> paths_of proto X = JObj (items_of proto X)"
  by (cases "paths_of proto X") (simp_all add: well_shaped_def items_of_def)

lemma well_shaped_non_null: "well_shaped proto X \<Longrightarrow> non_null X"
  by (simp add: well_shaped_def)

lemma own_item:
  assumes "well_shaped proto X" "p \<in> set (enum_keys (paths_of proto X))"
  shows "\<exists>ops. rd proto (paths_of proto X) p = JObj ops
           \<and> (\<forall>m \<in> fst ` set ops. rd proto (JObj ops) m \<in> set (members proto X))"
proof -
  have P: "paths_of proto X = JObj (items_of proto X)"
    using assms(1) by (rule well_shaped_paths)
  then have "p \<in> fst ` set (items_of proto X)" using assms(2) by simp
  from rd_own [OF this, of proto] obtain pi where
    pi: "pi \<in> set (items_of proto X)" "rd proto (JObj (items_of proto X)) p = snd pi"
    by auto
  then have "is_obj (snd pi)" using assms(1) by (simp add: well_shaped_def list_all_iff)
  then obtain ops where ops: "snd pi = JObj ops" by (cases "snd pi") simp_all
  have "rd proto (JObj ops) m \<in> set (members proto X)" if "m \<in> fst ` set ops" for m
  proof -
    from rd_own [OF that, of proto] have "rd proto (JObj ops) m \<in> snd ` set (operations_of (snd pi))"
      by (simp add: ops operations_of_def)
    then show ?thesis using pi(1) by (auto simp: members_def)
  qed
  then show ?thesis using P pi(2) ops by simp
qed

lemma own_member:
  assumes "well_shaped proto X" "p \<in> set (enum_keys (paths_of proto X))"
    "m \<in> set (enum_keys (rd proto (paths_of proto X) p))"
  shows "rd proto (rd proto (paths_of proto X) p) m \<in> set (members proto X)"
  using own_item [OF assms(1,2)] assms(3) by auto

lemma own_item_truthy:
  assumes "well_shaped proto X" "p \<in> set (enum_keys (paths_of proto X))"
  shows "truthy (rd proto (paths_of proto X) p)"
  using own_item [OF assms] by auto

lemma has_paths_truthy:
  "p \<in> set (enum_keys (paths_of proto X)) \<Longrightarrow> truthy (rd proto X ''paths'')"
  by (cases "truthy (rd proto X ''paths'')") (simp_all add: paths_of_def or_default_def)

lemma path_key_own:
  assumes "well_shaped proto X" "own_keys_only proto X" "p \<in> set (enum_keys (paths_of proto X))"
  shows "\<not> truthy (proto KObject p)"
  using assms by (auto simp: well_shaped_paths own_keys_only_def list_all_iff)

lemma method_key_own:
  assumes "well_shaped proto X" "own_keys_only proto X" "p \<in> set (enum_keys (paths_of proto X))"
    "m \<in> set (enum_keys (rd proto (paths_of proto X) p))"
  shows "\<not> truthy (proto KObject m)"
proof -
  have P: "paths_of proto X = JObj (items_of proto X)"
    using assms(1) by (rule well_shaped_paths)
  then have "p \<in> fst ` set (items_of proto X)" using assms(3) by simp
  from rd_own [OF this, of proto] obtain pi where
    pi: "pi \<in> set (items_of proto X)" "rd proto (JObj (items_of proto X)) p = snd pi"
    by auto
  then have "is_obj (snd pi)" using assms(1) by (simp add: well_shaped_def list_all_iff)
  then obtain ops where ops: "snd pi = JObj ops" by (cases "snd pi") simp_all
  then have "m \<in> fst ` set (operations_of (snd pi))"
    using assms(4) P pi(2) by (simp add: operations_of_def)
  then show ?thesis
    using assms(2) pi(1) by (auto simp: own_keys_only_def list_all_iff)
qed

lemma truthy_read_own:
  assumes "truthy (rd proto (JObj kvs) k)" "\<not> truthy (proto KObject k)"
  shows "k \<in> fst ` set kvs"
proof (rule ccontr)
  assume "k \<notin> fst ` set kvs"
  then have "rd proto (JObj kvs) k = proto KObject k" by (rule rd_absent)
  then show False using assms by simp
qed

text \<open>
  A member read under a key of the other document is the receiver's own member, when
  that key is not the name of an inherited member.
\<close>

lemma truthy_item_own:
  assumes "well_shaped proto A" "truthy (rd proto (paths_of proto A) p)" "\<not> truthy (proto KObject p)"
  shows "p \<in> set (enum_keys (paths_of proto A))"
  using assms truthy_read_own [of proto "items_of proto A" p] by (simp add: well_shaped_paths)

lemma truthy_member_own:
  assumes "well_shaped proto A" "p \<in> set (enum_keys (paths_of proto A))"
    "truthy (rd proto (rd proto (paths_of proto A) p) m)" "\<not> truthy (proto KObject m)"
  shows "m \<in> set (enum_keys (rd proto (paths_of proto A) p))"
proof -
  obtain ops where ops: "rd proto (paths_of proto A) p = JObj ops"
    using own_item [OF assms(1,2)] by blast
  show ?thesis using assms(3,4) truthy_read_own [of proto ops m] by (simp add: ops)
qed

lemma consistent_well_shaped: "consistent_spec proto X \<Longrightarrow> well_shaped proto X"
  by (simp add: consistent_spec_def)

lemma consistent_member:
  assumes "consistent_spec proto X" "v \<in> set (members proto X)"
  shows "truthy v" and "list_all truthy (params_list (parameters_of proto v))"
    and "flags_agree proto (params_list (parameters_of proto v))"
    and "operation_safe proto v"
proof -
  have c: "truthy v \<and> params_consistent proto (parameters_of proto v)"
    using assms by (simp add: consistent_spec_def list_all_iff)
  then show "truthy v" by simp
  from c show "list_all truthy (params_list (parameters_of proto v))"
    by (cases "parameters_of proto v") (simp_all add: params_consistent_def params_list_def)
  from c show "flags_agree proto (params_list (parameters_of proto v))"
    by (cases "parameters_of proto v") (simp_all add: params_consistent_def params_list_def)
  from c show "operation_safe proto v"
    by (cases "parameters_of proto v")
      (auto simp: params_consistent_def operation_safe_def params_safe_def truthy_non_null list_all_iff)
qed

text \<open>
  Under a path and key of \<open>B\<close> that \<open>A\<close> reads as truthy, both documents have a member of
  their own.
\<close>

lemma common_member:
  assumes wA: "well_shaped proto A" and wB: "well_shaped proto B" and oB: "own_keys_only proto B"
    and s: "shared_path proto A B p"
    and m: "m \<in> set (enum_keys (rd proto (paths_of proto B) p))"
    and t: "truthy (rd proto (rd proto (paths_of proto A) p) m)"
  shows "shared_path proto B A p" and "m \<in> set (enum_keys (rd proto (paths_of proto A) p))"
    and "rd proto (rd proto (paths_of proto A) p) m \<in> set (members proto A)"
    and "rd proto (rd proto (paths_of proto B) p) m \<in> set (members proto B)"
proof -
  have p: "p \<in> set (enum_keys (paths_of proto B))" and ti: "truthy (rd proto (paths_of proto A) p)"
    using s by (simp_all add: shared_path_def)
  have pA: "p \<in> set (enum_keys (paths_of proto A))"
    using truthy_item_own [OF wA ti path_key_own [OF wB oB p]] .
  show "shared_path proto B A p"
    using pA has_paths_truthy [OF p] own_item_truthy [OF wB p] by (simp add: shared_path_def)
  show mA: "m \<in> set (enum_keys (rd proto (paths_of proto A) p))"
    using truthy_member_own [OF wA pA t method_key_own [OF wB oB p m]] .
  show "rd proto (rd proto (paths_of proto A) p) m \<in> set (members proto A)"
    using own_member [OF wA pA mA] .
  show "rd proto (rd proto (paths_of proto B) p) m \<in> set (members proto B)"
    using own_member [OF wB p m] .
qed

lemma compare_specs_consistent:
  assumes A: "consistent_spec proto A" and B: "consistent_spec proto B"
    and oB: "own_keys_only proto B"
  shows "compare_specs proto A B = Inr (plain_diff proto A B)"
proof (rule compare_specs_rd)
  note wA = consistent_well_shaped [OF A] and wB = consistent_well_shaped [OF B]
  show "non_null A" "non_null B" using wA wB by (simp_all add: well_shaped_non_null)
  fix path m
  assume p: "path \<in> set (enum_keys (paths_of proto B))"
    and tp: "truthy (rd proto A ''paths'')"
    and ti: "truthy (rd proto (paths_of proto A) path)"
    and m: "m \<in> set (enum_keys (rd proto (paths_of proto B) path))"
    and tm: "truthy (rd proto (rd proto (paths_of proto A) path) m)"
  have s: "shared_path proto A B path" using p tp ti by (simp add: shared_path_def)
  show "operation_safe proto (rd proto (rd proto (paths_of proto A) path) m)
      \<and> operation_safe proto (rd proto (rd proto (paths_of proto B) path) m)"
    using consistent_member(4) [OF A common_member(3) [OF wA wB oB s m tm]]
      consistent_member(4) [OF B common_member(4) [OF wA wB oB s m tm]] by simp
qed

subsection \<open>Looking a parameter up\<close>

lemma strict_eq_eq: "strict_eq a b \<Longrightarrow> a = b"
  by (cases a; cases b) simp_all

lemma strict_eq_sym: "strict_eq a b = strict_eq b a"
  by (cases a; cases b) auto

lemma same_key_sym: "same_key proto p q = same_key proto q p"
  by (simp add: same_key_def strict_eq_sym [of "rd proto p ''name''"]
        strict_eq_sym [of "rd proto p ''in''"])

lemma same_key_names:
  "same_key proto p q \<Longrightarrow>
   rd proto p ''name'' = rd proto q ''name'' \<and> rd proto p ''in'' = rd proto q ''in''"
  by (simp add: same_key_def strict_eq_eq)

lemma same_key_trans:
  assumes "same_key proto p q" "same_key proto q r"
  shows "same_key proto p r"
  using assms(2) same_key_names [OF assms(1)] by (simp add: same_key_def)

lemma found_param_none:
  "\<not> (\<exists>p \<in> set ps. same_key proto p q) \<Longrightarrow> found_param proto ps q = JUndefined"
  by (induction ps) (simp_all add: found_param_def)

lemma found_param_some:
  "\<exists>p \<in> set ps. same_key proto p q \<Longrightarrow>
   found_param proto ps q \<in> set ps \<and> same_key proto (found_param proto ps q) q"
  by (induction ps) (auto simp: found_param_def)

lemma found_param_truthy:
  assumes "truthy (found_param proto ps q)"
  shows "found_param proto ps q \<in> set ps \<and> same_key proto (found_param proto ps q) q"
proof (cases "\<exists>p \<in> set ps. same_key proto p q")
  case True
  then show ?thesis by (rule found_param_some)
next
  case False
  then show ?thesis using assms found_param_none [of ps proto q] by simp
qed

lemma flags_agreeD:
  "flags_agree proto ps \<Longrightarrow> p \<in> set ps \<Longrightarrow> q \<in> set ps \<Longrightarrow> same_key proto p q \<Longrightarrow>
   rd proto p ''required'' = rd proto q ''required''"
  by (simp add: flags_agree_def list_all_iff)

subsection \<open>Members of the result\<close>

lemma mem_added_new:
  "(new_parameter n l \<in> set (concat (map (added_deltas proto olds) news)))
     = (\<exists>q \<in> set news. \<not> truthy (found_param proto olds q)
          \<and> n = rd proto q ''name'' \<and> l = rd proto q ''in'')"
  by (auto simp: added_deltas_def)

lemma mem_removed_removed:
  "(removed_parameter n l \<in> set (concat (map (removed_deltas proto news) olds)))
     = (\<exists>p \<in> set olds. \<not> truthy (found_param proto news p)
          \<and> n = rd proto p ''name'' \<and> l = rd proto p ''in'')"
  by (auto simp: removed_deltas_def)

lemma mem_added_changed:
  "(parameter_requirement_changed n l f t \<in> set (concat (map (added_deltas proto olds) news)))
     = (\<exists>q \<in> set news. truthy (found_param proto olds q)
          \<and> \<not> strict_eq (rd proto (found_param proto olds q) ''required'') (rd proto q ''required'')
          \<and> n = rd proto q ''name'' \<and> l = rd proto q ''in''
          \<and> f = or_default (rd proto (found_param proto olds q) ''required'') (JBool False)
          \<and> t = or_default (rd proto q ''required'') (JBool False))"
  by (auto simp: added_deltas_def)

lemma not_mem_added_removed:
  "removed_parameter n l \<notin> set (concat (map (added_deltas proto olds) news))"
  by (auto simp: added_deltas_def)

lemma not_mem_removed_new:
  "new_parameter n l \<notin> set (concat (map (removed_deltas proto news) olds))"
  by (auto simp: removed_deltas_def)

lemma not_mem_removed_changed:
  "parameter_requirement_changed n l f t \<notin> set (concat (map (removed_deltas proto news) olds))"
  by (auto simp: removed_deltas_def)

lemma changed_flip_imp:
  assumes news: "list_all truthy news" "flags_agree proto news"
    and d: "parameter_requirement_changed n l f t \<in> set (concat (map (added_deltas proto olds) news))"
  shows "parameter_requirement_changed n l t f \<in> set (concat (map (added_deltas proto news) olds))"
proof -
  from d obtain q where q: "q \<in> set news" "truthy (found_param proto olds q)"
    and ne: "\<not> strict_eq (rd proto (found_param proto olds q) ''required'') (rd proto q ''required'')"
    and nl: "n = rd proto q ''name''" "l = rd proto q ''in''"
    and ft: "f = or_default (rd proto (found_param proto olds q) ''required'') (JBool False)"
      "t = or_default (rd proto q ''required'') (JBool False)"
    unfolding mem_added_changed by blast
  define p where "p = found_param proto olds q"
  have p: "p \<in> set olds" "same_key proto p q"
    using found_param_truthy [OF q(2)] by (simp_all add: p_def)
  have qp: "same_key proto q p" using p(2) by (simp add: same_key_sym)
  define q' where "q' = found_param proto news p"
  have q': "q' \<in> set news" "same_key proto q' p"
    using found_param_some [of news proto p] q(1) qp by (auto simp: q'_def)
  have t: "truthy q'" using q'(1) news(1) by (simp add: list_all_iff)
  have "same_key proto q' q" using same_key_trans [OF q'(2) p(2)] .
  then have r: "rd proto q' ''required'' = rd proto q ''required''"
    using flags_agreeD [OF news(2) q'(1) q(1)] by simp
  have ne': "\<not> strict_eq (rd proto q' ''required'') (rd proto p ''required'')"
    using ne by (simp add: r p_def strict_eq_sym [of "rd proto q ''required''"])
  have "n = rd proto p ''name''" "l = rd proto p ''in''"
    using nl same_key_names [OF p(2)] by simp_all
  moreover have "truthy (found_param proto news p)" using t by (simp add: q'_def)
  moreover have "\<not> strict_eq (rd proto (found_param proto news p) ''required'') (rd proto p ''required'')"
    using ne' by (simp add: q'_def)
  moreover have "t = or_default (rd proto (found_param proto news p) ''required'') (JBool False)"
    using ft(2) r by (simp add: q'_def)
  moreover have "f = or_default (rd proto p ''required'') (JBool False)"
    using ft(1) by (simp add: p_def)
  ultimately show ?thesis
    unfolding mem_added_changed using p(1) by blast
qed

lemma param_deltas_flip:
  assumes "list_all truthy olds" "flags_agree proto olds"
    and "list_all truthy news" "flags_agree proto news"
  shows "(d \<in> set (param_deltas proto olds news))
           = (flip_pdelta d \<in> set (param_deltas proto news olds))"
proof (cases d)
  case (new_parameter n l)
  show ?thesis
    unfolding param_deltas_def new_parameter flip_pdelta.simps set_append Un_iff
    by (simp only: mem_added_new mem_removed_removed not_mem_added_removed not_mem_removed_new) simp
next
  case (removed_parameter n l)
  show ?thesis
    unfolding param_deltas_def removed_parameter flip_pdelta.simps set_append Un_iff
    by (simp only: mem_added_new mem_removed_removed not_mem_added_removed not_mem_removed_new) simp
next
  case (parameter_requirement_changed n l f t)
  show ?thesis
    unfolding param_deltas_def parameter_requirement_changed flip_pdelta.simps set_append Un_iff
    using changed_flip_imp [OF assms(3,4), of n l f t olds]
      changed_flip_imp [OF assms(1,2), of n l t f news]
    by (simp only: not_mem_removed_changed) blast
qed

lemma code_deltas_flip:
  "(d \<in> set (code_deltas proto a b)) = (flip_rdelta d \<in> set (code_deltas proto b a))"
  by (cases d) (auto simp: code_deltas_def)



lemma mem_operation_changes:
  "(c \<in> set (operation_changes proto a b path k)) =
     ((c = parameter_changes path k (param_deltas proto (params_list (parameters_of proto a))
                                      (params_list (parameters_of proto b)))
       \<and> param_deltas proto (params_list (parameters_of proto a))
                                      (params_list (parameters_of proto b)) \<noteq> [])
      \<or> (c = response_changes path k (code_deltas proto (responses_of proto a) (responses_of proto b))
         \<and> code_deltas proto (responses_of proto a) (responses_of proto b) \<noteq> []))"
  by (auto simp: operation_changes_def)

lemma mem_forward_method:
  "(c \<in> set (forward_method proto oi ni path k)) =
     ((\<not> truthy (rd proto oi k) \<and> c = new_method path k)
      \<or> (truthy (rd proto oi k)
         \<and> c \<in> set (operation_changes proto (rd proto oi k) (rd proto ni k) path k)))"
  by (simp add: forward_method_def)

lemma mem_forward_path:
  "(c \<in> set (forward_path proto op np path)) =
     ((\<not> (truthy op \<and> truthy (rd proto op path)) \<and> c = new_endpoint path)
      \<or> (truthy op \<and> truthy (rd proto op path)
         \<and> (\<exists>k \<in> set (enum_keys (rd proto np path)).
               c \<in> set (forward_method proto (rd proto op path) (rd proto np path) path k))))"
  by (auto simp: forward_path_def)

lemma mem_backward_path:
  "(c \<in> set (backward_path proto np op path)) =
     ((\<not> (truthy np \<and> truthy (rd proto np path)) \<and> c = removed_endpoint path)
      \<or> (truthy np \<and> truthy (rd proto np path)
         \<and> (\<exists>k \<in> set (enum_keys (rd proto op path)).
               \<not> truthy (rd proto (rd proto np path) k) \<and> c = removed_method path k)))"
  by (auto simp: backward_path_def backward_method_def)

lemma mem_plain_diff:
  "(c \<in> set (plain_diff proto A B)) =
     ((\<exists>path \<in> set (enum_keys (paths_of proto B)).
         c \<in> set (forward_path proto (rd proto A ''paths'') (paths_of proto B) path))
      \<or> (\<exists>path \<in> set (enum_keys (paths_of proto A)).
         c \<in> set (backward_path proto (rd proto B ''paths'') (paths_of proto A) path)))"
  by (auto simp: plain_diff_def)

lemma mem_new_endpoint:
  "(new_endpoint p \<in> set (plain_diff proto A B)) =
     (p \<in> set (enum_keys (paths_of proto B)) \<and> \<not> shared_path proto A B p)"
  unfolding mem_plain_diff mem_forward_path mem_backward_path shared_path_def
    mem_forward_method mem_operation_changes
  using paths_of_truthy [of proto A] paths_of_truthy [of proto B]
  by auto

lemma mem_removed_endpoint:
  "(removed_endpoint p \<in> set (plain_diff proto A B)) =
     (p \<in> set (enum_keys (paths_of proto A)) \<and> \<not> shared_path proto B A p)"
  unfolding mem_plain_diff mem_forward_path mem_backward_path shared_path_def
    mem_forward_method mem_operation_changes
  using paths_of_truthy [of proto A] paths_of_truthy [of proto B]
  by auto

lemma mem_new_method:
  "(new_method p m \<in> set (plain_diff proto A B)) =
     (shared_path proto A B p \<and> m \<in> set (enum_keys (rd proto (paths_of proto B) p))
      \<and> \<not> truthy (rd proto (rd proto (paths_of proto A) p) m))"
  unfolding mem_plain_diff mem_forward_path mem_backward_path shared_path_def
    mem_forward_method mem_operation_changes
  using paths_of_truthy [of proto A] paths_of_truthy [of proto B]
  by auto

lemma mem_removed_method:
  "(removed_method p m \<in> set (plain_diff proto A B)) =
     (shared_path proto B A p \<and> m \<in> set (enum_keys (rd proto (paths_of proto A) p))
      \<and> \<not> truthy (rd proto (rd proto (paths_of proto B) p) m))"
  unfolding mem_plain_diff mem_forward_path mem_backward_path shared_path_def
    mem_forward_method mem_operation_changes
  using paths_of_truthy [of proto A] paths_of_truthy [of proto B]
  by auto

lemma mem_parameter_changes:
  "(parameter_changes p m ds \<in> set (plain_diff proto A B)) =
     (shared_path proto A B p \<and> m \<in> set (enum_keys (rd proto (paths_of proto B) p))
      \<and> truthy (rd proto (rd proto (paths_of proto A) p) m)
      \<and> ds = param_deltas proto
               (params_list (parameters_of proto (rd proto (rd proto (paths_of proto A) p) m)))
               (params_list (parameters_of proto (rd proto (rd proto (paths_of proto B) p) m)))
      \<and> ds \<noteq> [])"
  unfolding mem_plain_diff mem_forward_path mem_backward_path shared_path_def
    mem_forward_method mem_operation_changes
  using paths_of_truthy [of proto A] paths_of_truthy [of proto B]
  by auto

lemma mem_response_changes:
  "(response_changes p m ds \<in> set (plain_diff proto A B)) =
     (shared_path proto A B p \<and> m \<in> set (enum_keys (rd proto (paths_of proto B) p))
      \<and> truthy (rd proto (rd proto (paths_of proto A) p) m)
      \<and> ds = code_deltas proto
               (responses_of proto (rd proto (rd proto (paths_of proto A) p) m))
               (responses_of proto (rd proto (rd proto (paths_of proto B) p) m))
      \<and> ds \<noteq> [])"
  unfolding mem_plain_diff mem_forward_path mem_backward_path shared_path_def
    mem_forward_method mem_operation_changes
  using paths_of_truthy [of proto A] paths_of_truthy [of proto B]
  by auto



subsection \<open>A document against its own copy\<close>

lemma added_deltas_self:
  assumes "list_all truthy ps" "flags_agree proto ps" "q \<in> set ps" "param_reflexive proto q"
  shows "added_deltas proto ps q = []" and "removed_deltas proto ps q = []"
proof -
  have "same_key proto q q"
    using assms(4) by (simp add: param_reflexive_def same_key_def self_eq_def)
  then have "\<exists>p \<in> set ps. same_key proto p q" using assms(3) by blast
  from found_param_some [OF this]
  have f: "found_param proto ps q \<in> set ps" "same_key proto (found_param proto ps q) q"
    by simp_all
  have t: "truthy (found_param proto ps q)"
    using f(1) assms(1) by (simp add: list_all_iff)
  have "rd proto (found_param proto ps q) ''required'' = rd proto q ''required''"
    using flags_agreeD [OF assms(2) f(1) assms(3) f(2)] .
  then have "strict_eq (rd proto (found_param proto ps q) ''required'') (rd proto q ''required'')"
    using assms(4) by (simp add: param_reflexive_def self_eq_def)
  then show "added_deltas proto ps q = []" using t by (simp add: added_deltas_def)
  show "removed_deltas proto ps q = []" using t by (simp add: removed_deltas_def)
qed

lemma param_deltas_self:
  assumes "list_all truthy ps" "flags_agree proto ps" "list_all (param_reflexive proto) ps"
  shows "param_deltas proto ps ps = []"
  using assms added_deltas_self [OF assms(1,2)]
  by (simp add: param_deltas_def list_all_iff)

lemma code_deltas_self:
  "list_all (\<lambda>code. truthy (rd proto r code)) (enum_keys r) \<Longrightarrow> code_deltas proto r r = []"
  by (simp add: code_deltas_def list_all_iff)

lemma operation_changes_self:
  assumes "reflexive_spec proto X" "v \<in> set (members proto X)"
  shows "operation_changes proto v v path m = []"
proof -
  have c: "consistent_spec proto X" and r: "operation_reflexive proto v"
    using assms by (simp_all add: reflexive_spec_def list_all_iff)
  have "param_deltas proto (params_list (parameters_of proto v))
          (params_list (parameters_of proto v)) = []"
    using consistent_member(2,3) [OF c assms(2)] r
    by (simp add: param_deltas_self operation_reflexive_def)
  moreover have "code_deltas proto (responses_of proto v) (responses_of proto v) = []"
    using r by (simp add: code_deltas_self operation_reflexive_def)
  ultimately show ?thesis by (simp add: operation_changes_def)
qed

lemma plain_diff_self:
  assumes "reflexive_spec proto X"
  shows "plain_diff proto X X = []"
proof -
  have c: "consistent_spec proto X" using assms by (simp add: reflexive_spec_def)
  note w = consistent_well_shaped [OF c]
  have s: "shared_path proto X X p" if "p \<in> set (enum_keys (paths_of proto X))" for p
    using that has_paths_truthy [OF that] own_item_truthy [OF w that]
    by (simp add: shared_path_def)
  have t: "truthy (rd proto (rd proto (paths_of proto X) p) m)"
    if "p \<in> set (enum_keys (paths_of proto X))"
       "m \<in> set (enum_keys (rd proto (paths_of proto X) p))" for p m
    using consistent_member(1) [OF c own_member [OF w that]] .
  have o: "operation_changes proto (rd proto (rd proto (paths_of proto X) p) m)
             (rd proto (rd proto (paths_of proto X) p) m) p m = []"
    if "p \<in> set (enum_keys (paths_of proto X))"
       "m \<in> set (enum_keys (rd proto (paths_of proto X) p))" for p m
    using operation_changes_self [OF assms own_member [OF w that]] .
  have f: "forward_path proto (rd proto X ''paths'') (paths_of proto X) p = []"
    if p: "p \<in> set (enum_keys (paths_of proto X))" for p
  proof -
    have h: "truthy (rd proto X ''paths'')" using has_paths_truthy [OF p] .
    have i: "truthy (rd proto (paths_of proto X) p)" using own_item_truthy [OF w p] .
    have "forward_method proto (rd proto (paths_of proto X) p) (rd proto (paths_of proto X) p) p m = []"
      if "m \<in> set (enum_keys (rd proto (paths_of proto X) p))" for m
      using t [OF p that] o [OF p that] by (simp add: forward_method_def)
    then show ?thesis
      using h i by (simp add: forward_path_def paths_of_truthy [OF h])
  qed
  have b: "backward_path proto (rd proto X ''paths'') (paths_of proto X) p = []"
    if p: "p \<in> set (enum_keys (paths_of proto X))" for p
  proof -
    have h: "truthy (rd proto X ''paths'')" using has_paths_truthy [OF p] .
    have i: "truthy (rd proto (paths_of proto X) p)" using own_item_truthy [OF w p] .
    have "backward_method proto (rd proto (paths_of proto X) p) p m = []"
      if "m \<in> set (enum_keys (rd proto (paths_of proto X) p))" for m
      using t [OF p that] by (simp add: backward_method_def)
    then show ?thesis
      using h i by (simp add: backward_path_def paths_of_truthy [OF h])
  qed
  show ?thesis by (simp add: plain_diff_def f b)
qed

lemma compare_specs_self:
  assumes "reflexive_spec proto X"
  shows "compare_specs proto X X = Inr []"
proof -
  have c: "consistent_spec proto X" using assms by (simp add: reflexive_spec_def)
  note w = consistent_well_shaped [OF c]
  have "compare_specs proto X X = Inr (plain_diff proto X X)"
  proof (rule compare_specs_rd)
    show "non_null X" "non_null X" using w by (simp_all add: well_shaped_non_null)
    fix path m
    assume "path \<in> set (enum_keys (paths_of proto X))"
      "m \<in> set (enum_keys (rd proto (paths_of proto X) path))"
    from consistent_member(4) [OF c own_member [OF w this]]
    show "operation_safe proto (rd proto (rd proto (paths_of proto X) path) m)
        \<and> operation_safe proto (rd proto (rd proto (paths_of proto X) path) m)" by simp
  qed
  then show ?thesis by (simp add: plain_diff_self [OF assms])
qed

subsection \<open>The sample documents\<close>

lemmas sample_defs = sample_json_parse_def parse_table_def text_null_operation_def text_one_param_def
  text_two_params_def doc_two_params_def text_get_only_def doc_get_only_def text_get_summary_def
  doc_get_summary_def text_get_constructor_def doc_get_constructor_def text_null_get_summary_def
  doc_null_get_summary_def text_path_level_def doc_path_level_def ref_param_def
  text_false_operation_def doc_false_operation_def text_null_response_def doc_null_response_def
  text_object_name_def doc_object_name_def
  text_repeated_param_def doc_null_operation_def doc_one_param_def doc_repeated_param_def one_operation_def
  param_req_def param_def

lemmas diff_defs = diffOpenAPISpecs_def try_block_def parseSpec_def compare_specs_def
  new_path_step_def removed_path_step_def new_method_step_def removed_method_step_def 
  compareParameters_def compareResponses_def new_param_step_def removed_param_step_def same_param_def
  new_code_step_def removed_code_step_def or_default_def object_proto_def object_prototype_names_def

lemmas domain_defs = reflexive_spec_def consistent_spec_def well_shaped_def comparable_specs_def shared_path_def
  own_keys_only_def operation_reflexive_def param_reflexive_def params_consistent_def flags_agree_def
  same_key_def self_eq_def operation_safe_def params_safe_def members_def items_of_def paths_of_def
  operations_of_def parameters_of_def responses_of_def params_list_def rd_def or_default_def
  object_proto_def object_prototype_names_def

lemma dec_digit: "n < 10 \<Longrightarrow> dec n = [digit_char n]"
  by (simp add: dec.simps)

lemma reflexive_path_level: "reflexive_spec object_proto doc_path_level"
  by (simp add: doc_path_level_def ref_param_def param_req_def domain_defs upt_rec dec_digit)

lemma own_keys_path_level: "own_keys_only object_proto doc_path_level"
  by (simp add: doc_path_level_def ref_param_def param_req_def domain_defs)

text \<open>
  C3. A parameter present in both descriptors, with \<^verbatim>\<open>required\<close> absent in the old one and
  explicitly \<^verbatim>\<open>false\<close> in the new one: the flags are compared before the default is applied,
  so a delta is emitted, and it reads "from false to false".
\<close>

theorem compareParameters_absent_vs_false:
  "compareParameters object_proto (JArr [param ''q'' ''query'']) (JArr [param_req ''q'' ''query'' False])
     = Inr [parameter_requirement_changed (JStr ''q'') (JStr ''query'') (JBool False) (JBool False)]"
  by (simp add: compareParameters_def new_param_step_def removed_param_step_def same_param_def
        or_default_def param_def param_req_def object_proto_def object_prototype_names_def)

text \<open>
  C6. \<^verbatim>\<open>diffOpenAPISpecs\<close> always returns a list, never an error; when a document parses under
  neither encoding, or the comparison throws, the list is empty.
\<close>

theorem diffOpenAPISpecs_never_raises:
  "(\<exists>changes. diffOpenAPISpecs proto jp yl old new = Inr changes) \<and>
   (((\<exists>a b. jp old = Inl a \<and> yl old = Inl b) \<or> (\<exists>a b. jp new = Inl a \<and> yl new = Inl b)
      \<or> (\<exists>e. try_block proto jp yl old new = Inl e))
     \<longrightarrow> diffOpenAPISpecs proto jp yl old new = Inr [])"
proof -
  have total: "\<exists>changes. diffOpenAPISpecs proto jp yl old new = Inr changes"
    by (cases "try_block proto jp yl old new") (simp_all add: diffOpenAPISpecs_def)
  have old: "diffOpenAPISpecs proto jp yl old new = Inr []" if "jp old = Inl a" "yl old = Inl b" for a b
    using that by (simp add: diffOpenAPISpecs_def try_block_def parseSpec_def)
  have new: "diffOpenAPISpecs proto jp yl old new = Inr []" if "jp new = Inl a" "yl new = Inl b" for a b
    using that
    by (cases "parseSpec jp yl old") (simp_all add: diffOpenAPISpecs_def try_block_def parseSpec_def)
  have thrown: "diffOpenAPISpecs proto jp yl old new = Inr []" if "try_block proto jp yl old new = Inl e" for e
    using that by (simp add: diffOpenAPISpecs_def)
  from total old new thrown show ?thesis by blast
qed

theorem diffOpenAPISpecs_never_raises_witness:
  "(\<exists>a b. no_parse ''{'' = Inl a \<and> no_parse ''{'' = Inl b)
   \<and> diffOpenAPISpecs object_proto no_parse no_parse ''{'' ''{}'' = Inr []"
  using diffOpenAPISpecs_never_raises [of object_proto no_parse no_parse "''{''" "''{}''"]
  by (simp add: no_parse_def)

text \<open>
  C5 (as stated). Comparing a document with itself is not always empty. An operation that
  is \<^verbatim>\<open>null\<close> is reported as both new and removed. A parameter list that repeats a name and
  location with different \<^verbatim>\<open>required\<close> flags yields a requirement change. A response that
  is \<^verbatim>\<open>null\<close> is reported as both a new and a removed response code. A parameter whose
  name is an object is not found in the other copy, where the name is another object, and
  is reported as both new and removed.
\<close>

theorem diff_self_counterexample:
  "diffOpenAPISpecs object_proto sample_json_parse no_parse text_null_operation text_null_operation
     = Inr [new_method ''/a'' ''get'', removed_method ''/a'' ''get'']
   \<and> diffOpenAPISpecs object_proto sample_json_parse no_parse text_repeated_param text_repeated_param
     = Inr [parameter_changes ''/a'' ''get''
             [parameter_requirement_changed (JStr ''q'') (JStr ''query'') (JBool True) (JBool False)]]
   \<and> diffOpenAPISpecs object_proto sample_json_parse no_parse text_null_response text_null_response
     = Inr [response_changes ''/a'' ''get'' [new_response_code ''200'', removed_response_code ''200'']]
   \<and> diffOpenAPISpecs object_proto sample_json_parse no_parse text_object_name text_object_name
     = Inr [parameter_changes ''/a'' ''get''
             [new_parameter (JObj []) (JStr ''query''), removed_parameter (JObj []) (JStr ''query'')]]"
  by (simp add: sample_defs diff_defs)

text \<open>
  C5 (amended). Comparing a document with itself yields the empty list when the document
  is consistent and equal to its own copy: its \<^verbatim>\<open>paths\<close> is an object or falsy and every
  path item an object; every member of a path item is truthy, with a parameter list
  (when it has one) of truthy entries among which the same name and location mean the
  same \<^verbatim>\<open>required\<close>; names, locations and flags are primitive values other than NaN, or
  absent; and every response is truthy. Path-level fields and parameters given by
  reference are within these bounds.
\<close>

theorem diff_self_empty:
  assumes "parseSpec jp yl x = Inr X" "reflexive_spec proto X"
  shows "diffOpenAPISpecs proto jp yl x x = Inr []"
  using assms by (simp add: diffOpenAPISpecs_def try_block_def compare_specs_self)

theorem diff_self_empty_witness:
  "parseSpec sample_json_parse no_parse text_path_level = Inr doc_path_level
   \<and> reflexive_spec object_proto doc_path_level
   \<and> diffOpenAPISpecs object_proto sample_json_parse no_parse text_path_level text_path_level = Inr []"
proof -
  have p: "parseSpec sample_json_parse no_parse text_path_level = Inr doc_path_level"
    by (simp add: parseSpec_def sample_defs)
  from p reflexive_path_level diff_self_empty [OF p reflexive_path_level] show ?thesis by simp
qed



subsection \<open>Exchanging the two documents\<close>

lemma common_swap:
  assumes A: "consistent_spec proto A" and B: "consistent_spec proto B"
    and oA: "own_keys_only proto A" and oB: "own_keys_only proto B"
  shows "(shared_path proto A B p \<and> m \<in> set (enum_keys (rd proto (paths_of proto B) p))
          \<and> truthy (rd proto (rd proto (paths_of proto A) p) m))
       = (shared_path proto B A p \<and> m \<in> set (enum_keys (rd proto (paths_of proto A) p))
          \<and> truthy (rd proto (rd proto (paths_of proto B) p) m))"
proof -
  note wA = consistent_well_shaped [OF A] and wB = consistent_well_shaped [OF B]
  have "shared_path proto Y X p \<and> m \<in> set (enum_keys (rd proto (paths_of proto X) p))
          \<and> truthy (rd proto (rd proto (paths_of proto Y) p) m)"
    if X: "consistent_spec proto X" and Y: "consistent_spec proto Y" and oY: "own_keys_only proto Y"
      and s: "shared_path proto X Y p" and m: "m \<in> set (enum_keys (rd proto (paths_of proto Y) p))"
      and t: "truthy (rd proto (rd proto (paths_of proto X) p) m)" for X Y
    using common_member(1,2) [OF consistent_well_shaped [OF X] consistent_well_shaped [OF Y] oY s m t]
      consistent_member(1) [OF Y common_member(4)
        [OF consistent_well_shaped [OF X] consistent_well_shaped [OF Y] oY s m t]]
    by simp
  from this [OF A B oB] this [OF B A oA] show ?thesis by blast
qed

lemma swap_parameter_changes:
  assumes A: "consistent_spec proto A" and B: "consistent_spec proto B"
    and oA: "own_keys_only proto A" and oB: "own_keys_only proto B"
  shows "(\<exists>ds. parameter_changes p m ds \<in> set (plain_diff proto A B) \<and> d \<in> set ds)
       = (\<exists>ds. parameter_changes p m ds \<in> set (plain_diff proto B A) \<and> flip_pdelta d \<in> set ds)"
proof -
  note wA = consistent_well_shaped [OF A] and wB = consistent_well_shaped [OF B]
  let ?a = "rd proto (rd proto (paths_of proto A) p) m"
  let ?b = "rd proto (rd proto (paths_of proto B) p) m"
  let ?pa = "params_list (parameters_of proto ?a)"
  let ?pb = "params_list (parameters_of proto ?b)"
  let ?c = "shared_path proto A B p \<and> m \<in> set (enum_keys (rd proto (paths_of proto B) p)) \<and> truthy ?a"
  let ?c' = "shared_path proto B A p \<and> m \<in> set (enum_keys (rd proto (paths_of proto A) p)) \<and> truthy ?b"
  have l: "(\<exists>ds. parameter_changes p m ds \<in> set (plain_diff proto A B) \<and> d \<in> set ds)
             = (?c \<and> d \<in> set (param_deltas proto ?pa ?pb))"
    unfolding mem_parameter_changes by auto
  have r: "(\<exists>ds. parameter_changes p m ds \<in> set (plain_diff proto B A) \<and> flip_pdelta d \<in> set ds)
             = (?c' \<and> flip_pdelta d \<in> set (param_deltas proto ?pb ?pa))"
    unfolding mem_parameter_changes by auto
  have f: "(d \<in> set (param_deltas proto ?pa ?pb)) = (flip_pdelta d \<in> set (param_deltas proto ?pb ?pa))"
    if c: ?c
  proof -
    have s: "shared_path proto A B p" and k: "m \<in> set (enum_keys (rd proto (paths_of proto B) p))"
      and t: "truthy ?a" using c by simp_all
    note ma = common_member(3) [OF wA wB oB s k t] and mb = common_member(4) [OF wA wB oB s k t]
    show ?thesis
      using param_deltas_flip [OF consistent_member(2,3) [OF A ma] consistent_member(2,3) [OF B mb]] .
  qed
  show ?thesis
    unfolding l r using common_swap [OF assms, of p m] f by blast
qed

lemma swap_response_changes:
  assumes A: "consistent_spec proto A" and B: "consistent_spec proto B"
    and oA: "own_keys_only proto A" and oB: "own_keys_only proto B"
  shows "(\<exists>ds. response_changes p m ds \<in> set (plain_diff proto A B) \<and> d \<in> set ds)
       = (\<exists>ds. response_changes p m ds \<in> set (plain_diff proto B A) \<and> flip_rdelta d \<in> set ds)"
proof -
  let ?a = "rd proto (rd proto (paths_of proto A) p) m"
  let ?b = "rd proto (rd proto (paths_of proto B) p) m"
  let ?c = "shared_path proto A B p \<and> m \<in> set (enum_keys (rd proto (paths_of proto B) p)) \<and> truthy ?a"
  let ?c' = "shared_path proto B A p \<and> m \<in> set (enum_keys (rd proto (paths_of proto A) p)) \<and> truthy ?b"
  have l: "(\<exists>ds. response_changes p m ds \<in> set (plain_diff proto A B) \<and> d \<in> set ds)
             = (?c \<and> d \<in> set (code_deltas proto (responses_of proto ?a) (responses_of proto ?b)))"
    unfolding mem_response_changes by auto
  have r: "(\<exists>ds. response_changes p m ds \<in> set (plain_diff proto B A) \<and> flip_rdelta d \<in> set ds)
             = (?c' \<and> flip_rdelta d \<in> set (code_deltas proto (responses_of proto ?b) (responses_of proto ?a)))"
    unfolding mem_response_changes by auto
  show ?thesis
    unfolding l r
    using common_swap [OF assms, of p m]
      code_deltas_flip [of d proto "responses_of proto ?a" "responses_of proto ?b"] by blast
qed

text \<open>
  C4 (as stated). Four pairs of documents whose two comparisons are not complementary.
  A parameter list that repeats a name and location: the new document's second entry is
  compared with the old document's only entry and a requirement change is reported, while
  in the other direction the lookup finds the first entry, which agrees. A key that names
  an inherited member (\<^verbatim>\<open>constructor\<close>): the document that lacks it still reads a truthy
  value under it, so its addition is reported as a parameter change and its removal not
  at all. An operation that is \<^verbatim>\<open>null\<close> in the old document: it is reported as a new
  method, and the other direction throws and reports nothing. An operation that is
  \<^verbatim>\<open>false\<close> in the new document: the parameter of the old operation is reported as
  removed, and in the other direction the operation is a new method whose parameters
  are not looked at.
\<close>

theorem diff_swap_counterexample:
  "diffOpenAPISpecs object_proto sample_json_parse no_parse text_one_param text_repeated_param
     = Inr [parameter_changes ''/a'' ''get''
             [parameter_requirement_changed (JStr ''q'') (JStr ''query'') (JBool True) (JBool False)]]
   \<and> diffOpenAPISpecs object_proto sample_json_parse no_parse text_repeated_param text_one_param = Inr []
   \<and> diffOpenAPISpecs object_proto sample_json_parse no_parse text_get_only text_get_constructor
     = Inr [parameter_changes ''/a'' ''constructor'' [new_parameter (JStr ''q'') (JStr ''query'')]]
   \<and> diffOpenAPISpecs object_proto sample_json_parse no_parse text_get_constructor text_get_only = Inr []
   \<and> diffOpenAPISpecs object_proto sample_json_parse no_parse text_null_operation text_get_only
     = Inr [new_method ''/a'' ''get'']
   \<and> diffOpenAPISpecs object_proto sample_json_parse no_parse text_get_only text_null_operation = Inr []
   \<and> diffOpenAPISpecs object_proto sample_json_parse no_parse text_one_param text_false_operation
     = Inr [parameter_changes ''/a'' ''get'' [removed_parameter (JStr ''q'') (JStr ''query'')],
            removed_method ''/a'' ''get'']
   \<and> diffOpenAPISpecs object_proto sample_json_parse no_parse text_false_operation text_one_param
     = Inr [new_method ''/a'' ''get'']"
  by (simp add: sample_defs diff_defs)

text \<open>
  C4 (amended). For two consistent documents in which no path and no key of a path item
  names an inherited member, exchanging them exchanges new and removed endpoints, new and
  removed methods, and, within the parameter and response changes of a path and method,
  every delta with its flipped delta. A consistent document has a \<^verbatim>\<open>paths\<close> that is an
  object or falsy, path items that are objects, and truthy members whose parameter list
  (when there is one) has truthy entries among which the same name and location mean the
  same \<^verbatim>\<open>required\<close>.
\<close>

theorem diff_swap_complementary:
  assumes "parseSpec jp yl a = Inr A" "parseSpec jp yl b = Inr B"
    and "consistent_spec proto A" "consistent_spec proto B"
    and "own_keys_only proto A" "own_keys_only proto B"
  shows "\<exists>ab ba. diffOpenAPISpecs proto jp yl a b = Inr ab \<and> diffOpenAPISpecs proto jp yl b a = Inr ba
     \<and> (\<forall>p. (new_endpoint p \<in> set ab) = (removed_endpoint p \<in> set ba))
     \<and> (\<forall>p. (removed_endpoint p \<in> set ab) = (new_endpoint p \<in> set ba))
     \<and> (\<forall>p m. (new_method p m \<in> set ab) = (removed_method p m \<in> set ba))
     \<and> (\<forall>p m. (removed_method p m \<in> set ab) = (new_method p m \<in> set ba))
     \<and> (\<forall>p m d. (\<exists>ds. parameter_changes p m ds \<in> set ab \<and> d \<in> set ds)
                 = (\<exists>ds. parameter_changes p m ds \<in> set ba \<and> flip_pdelta d \<in> set ds))
     \<and> (\<forall>p m d. (\<exists>ds. response_changes p m ds \<in> set ab \<and> d \<in> set ds)
                 = (\<exists>ds. response_changes p m ds \<in> set ba \<and> flip_rdelta d \<in> set ds))"
proof -
  have ab: "diffOpenAPISpecs proto jp yl a b = Inr (plain_diff proto A B)"
    using assms by (simp add: diffOpenAPISpecs_def try_block_def compare_specs_consistent)
  have ba: "diffOpenAPISpecs proto jp yl b a = Inr (plain_diff proto B A)"
    using assms by (simp add: diffOpenAPISpecs_def try_block_def compare_specs_consistent)
  have 1: "(new_endpoint p \<in> set (plain_diff proto A B)) = (removed_endpoint p \<in> set (plain_diff proto B A))" for p
    by (simp only: mem_new_endpoint mem_removed_endpoint)
  have 2: "(removed_endpoint p \<in> set (plain_diff proto A B)) = (new_endpoint p \<in> set (plain_diff proto B A))" for p
    by (simp only: mem_new_endpoint mem_removed_endpoint)
  have 3: "(new_method p m \<in> set (plain_diff proto A B)) = (removed_method p m \<in> set (plain_diff proto B A))" for p m
    by (simp only: mem_new_method mem_removed_method)
  have 4: "(removed_method p m \<in> set (plain_diff proto A B)) = (new_method p m \<in> set (plain_diff proto B A))" for p m
    by (simp only: mem_new_method mem_removed_method)
  note 5 = swap_parameter_changes [OF assms(3-6)] and 6 = swap_response_changes [OF assms(3-6)]
  show ?thesis
    unfolding ab ba using 1 2 3 4 5 6 by (intro exI conjI allI) (rule refl | assumption | blast)+
qed

lemma consistent_path_level: "consistent_spec object_proto doc_path_level"
  using reflexive_path_level by (simp add: reflexive_spec_def)

lemma consistent_two_params: "consistent_spec object_proto doc_two_params"
  by (simp add: doc_two_params_def one_operation_def param_req_def param_def domain_defs)

lemma own_keys_two_params: "own_keys_only object_proto doc_two_params"
  by (simp add: doc_two_params_def one_operation_def param_req_def param_def domain_defs)

theorem diff_swap_complementary_witness:
  "parseSpec sample_json_parse no_parse text_path_level = Inr doc_path_level
   \<and> parseSpec sample_json_parse no_parse text_two_params = Inr doc_two_params
   \<and> consistent_spec object_proto doc_path_level \<and> consistent_spec object_proto doc_two_params
   \<and> own_keys_only object_proto doc_path_level \<and> own_keys_only object_proto doc_two_params
   \<and> (\<exists>ab ba. diffOpenAPISpecs object_proto sample_json_parse no_parse text_path_level text_two_params = Inr ab
         \<and> diffOpenAPISpecs object_proto sample_json_parse no_parse text_two_params text_path_level = Inr ba
     \<and> (\<forall>p. (new_endpoint p \<in> set ab) = (removed_endpoint p \<in> set ba))
     \<and> (\<forall>p. (removed_endpoint p \<in> set ab) = (new_endpoint p \<in> set ba))
     \<and> (\<forall>p m. (new_method p m \<in> set ab) = (removed_method p m \<in> set ba))
     \<and> (\<forall>p m. (removed_method p m \<in> set ab) = (new_method p m \<in> set ba))
     \<and> (\<forall>p m d. (\<exists>ds. parameter_changes p m ds \<in> set ab \<and> d \<in> set ds)
                 = (\<exists>ds. parameter_changes p m ds \<in> set ba \<and> flip_pdelta d \<in> set ds))
     \<and> (\<forall>p m d. (\<exists>ds. response_changes p m ds \<in> set ab \<and> d \<in> set ds)
                 = (\<exists>ds. response_changes p m ds \<in> set ba \<and> flip_rdelta d \<in> set ds)))"
proof -
  have p1: "parseSpec sample_json_parse no_parse text_path_level = Inr doc_path_level"
    by (simp add: parseSpec_def sample_defs)
  have p2: "parseSpec sample_json_parse no_parse text_two_params = Inr doc_two_params"
    by (simp add: parseSpec_def sample_defs)
  note w = consistent_path_level consistent_two_params own_keys_path_level own_keys_two_params
  show ?thesis
    using p1 p2 w diff_swap_complementary [OF p1 p2 w] by (intro conjI) assumption+
qed



subsection \<open>Keys of a path item\<close>

lemma compare_specs_comparable:
  assumes "comparable_specs proto A B"
  shows "compare_specs proto A B = Inr (plain_diff proto A B)"
proof (rule compare_specs_rd)
  show "non_null A" "non_null B" using assms by (simp_all add: comparable_specs_def)
  fix path m
  assume "path \<in> set (enum_keys (paths_of proto B))" "truthy (rd proto A ''paths'')"
    "truthy (rd proto (paths_of proto A) path)"
    "m \<in> set (enum_keys (rd proto (paths_of proto B) path))"
    "truthy (rd proto (rd proto (paths_of proto A) path) m)"
  then show "operation_safe proto (rd proto (rd proto (paths_of proto A) path) m)
      \<and> operation_safe proto (rd proto (rd proto (paths_of proto B) path) m)"
    using assms by (simp add: comparable_specs_def shared_path_def list_all_iff)
qed

lemma item_of_paths:
  assumes "map_of (items_of proto X) p = Some v"
  shows "p \<in> set (enum_keys (paths_of proto X))" and "rd proto (paths_of proto X) p = v"
    and "truthy (rd proto X ''paths'')"
proof -
  have "items_of proto X \<noteq> []" using assms by auto
  then have P: "paths_of proto X = JObj (items_of proto X)"
    by (cases "paths_of proto X") (simp_all add: items_of_def)
  have "p \<in> fst ` set (items_of proto X)"
    using assms by (metis domI dom_map_of_conv_image_fst)
  then show k: "p \<in> set (enum_keys (paths_of proto X))" by (simp add: P)
  show "rd proto (paths_of proto X) p = v" using assms by (simp add: P rd_map_of)
  show "truthy (rd proto X ''paths'')" using has_paths_truthy [OF k] .
qed

text \<open>
  C10 (as stated). A key of the new path item that the old one lacks is not always
  reported. Under the key \<^verbatim>\<open>constructor\<close> the old path item reads the member every object
  inherits, which is truthy: the key is compared as a method present on both sides, and
  no new method is reported. And when the comparison throws anywhere (here on the
  operation that is \<^verbatim>\<open>null\<close> in the new document), nothing at all is reported, the added
  \<^verbatim>\<open>summary\<close> included.
\<close>

theorem added_key_not_reported_counterexample:
  "diffOpenAPISpecs object_proto sample_json_parse no_parse text_get_only text_get_constructor
     = Inr [parameter_changes ''/a'' ''constructor'' [new_parameter (JStr ''q'') (JStr ''query'')]]
   \<and> diffOpenAPISpecs object_proto sample_json_parse no_parse text_get_only text_null_get_summary
     = Inr []"
  by (simp add: sample_defs diff_defs)

text \<open>
  C10 (amended). When the comparison of the two documents meets nothing that throws and
  a path is an object in both, every key of the new path item that the old one lacks,
  and that names no inherited member, is reported as a new method, and every key of the
  old path item that the new one lacks, and that names no inherited member, as a removed
  method, whatever the key is. The comparison is proved to run to its end.
\<close>

theorem every_key_treated_as_method:
  assumes "parseSpec jp yl a = Inr A" "parseSpec jp yl b = Inr B"
    and "comparable_specs proto A B"
    and "map_of (items_of proto A) path = Some (JObj aops)"
    and "map_of (items_of proto B) path = Some (JObj bops)"
    and "\<not> truthy (proto KObject k)"
  shows "\<exists>changes. diffOpenAPISpecs proto jp yl a b = Inr changes
     \<and> (k \<in> fst ` set bops \<and> k \<notin> fst ` set aops \<longrightarrow> new_method path k \<in> set changes)
     \<and> (k \<in> fst ` set aops \<and> k \<notin> fst ` set bops \<longrightarrow> removed_method path k \<in> set changes)"
proof -
  have d: "diffOpenAPISpecs proto jp yl a b = Inr (plain_diff proto A B)"
    using assms(1-3) by (simp add: diffOpenAPISpecs_def try_block_def compare_specs_comparable)
  note ia = item_of_paths [OF assms(4)] and ib = item_of_paths [OF assms(5)]
  have sab: "shared_path proto A B path" and sba: "shared_path proto B A path"
    using ia ib by (simp_all add: shared_path_def)
  have new: "new_method path k \<in> set (plain_diff proto A B)"
    if "k \<in> fst ` set bops" "k \<notin> fst ` set aops"
    unfolding mem_new_method
    using that sab assms(6) by (simp add: ia(2) ib(2) rd_absent)
  have removed: "removed_method path k \<in> set (plain_diff proto A B)"
    if "k \<in> fst ` set aops" "k \<notin> fst ` set bops"
    unfolding mem_removed_method
    using that sba assms(6) by (simp add: ia(2) ib(2) rd_absent)
  from d new removed show ?thesis by blast
qed

lemma comparable_get_only_summary: "comparable_specs object_proto doc_get_only doc_get_summary"
  by (simp add: doc_get_only_def doc_get_summary_def one_operation_def domain_defs)

lemma comparable_get_summary_only: "comparable_specs object_proto doc_get_summary doc_get_only"
  by (simp add: doc_get_only_def doc_get_summary_def one_operation_def domain_defs)

theorem every_key_treated_as_method_witness:
  "parseSpec sample_json_parse no_parse text_get_only = Inr doc_get_only
   \<and> parseSpec sample_json_parse no_parse text_get_summary = Inr doc_get_summary
   \<and> comparable_specs object_proto doc_get_only doc_get_summary
   \<and> comparable_specs object_proto doc_get_summary doc_get_only
   \<and> map_of (items_of object_proto doc_get_only) ''/a'' = Some (JObj [(''get'', JObj [])])
   \<and> map_of (items_of object_proto doc_get_summary) ''/a''
       = Some (JObj [(''get'', JObj []), (''summary'', JStr ''List'')])
   \<and> \<not> truthy (object_proto KObject ''summary'')
   \<and> ''summary'' \<in> fst ` set [(''get'', JObj []), (''summary'', JStr ''List'')]
   \<and> ''summary'' \<notin> fst ` set [(''get'', JObj [])]
   \<and> (\<exists>changes. diffOpenAPISpecs object_proto sample_json_parse no_parse text_get_only text_get_summary
          = Inr changes \<and> new_method ''/a'' ''summary'' \<in> set changes)
   \<and> (\<exists>changes. diffOpenAPISpecs object_proto sample_json_parse no_parse text_get_summary text_get_only
          = Inr changes \<and> removed_method ''/a'' ''summary'' \<in> set changes)"
proof -
  have p1: "parseSpec sample_json_parse no_parse text_get_only = Inr doc_get_only"
    by (simp add: parseSpec_def sample_defs)
  have p2: "parseSpec sample_json_parse no_parse text_get_summary = Inr doc_get_summary"
    by (simp add: parseSpec_def sample_defs)
  have i1: "map_of (items_of object_proto doc_get_only) ''/a'' = Some (JObj [(''get'', JObj [])])"
    by (simp add: doc_get_only_def one_operation_def domain_defs)
  have i2: "map_of (items_of object_proto doc_get_summary) ''/a''
       = Some (JObj [(''get'', JObj []), (''summary'', JStr ''List'')])"
    by (simp add: doc_get_summary_def domain_defs)
  have k: "\<not> truthy (object_proto KObject ''summary'')"
    by (simp add: object_proto_def object_prototype_names_def)
  have in_new: "''summary'' \<in> fst ` set [(''get'', JObj []), (''summary'', JStr ''List'')]"
    and not_in_old: "''summary'' \<notin> fst ` set [(''get'', JObj [])]"
    by simp_all
  from every_key_treated_as_method [OF p1 p2 comparable_get_only_summary i1 i2 k]
  have new: "\<exists>changes. diffOpenAPISpecs object_proto sample_json_parse no_parse text_get_only text_get_summary
          = Inr changes \<and> new_method ''/a'' ''summary'' \<in> set changes"
    using in_new not_in_old by blast
  from every_key_treated_as_method [OF p2 p1 comparable_get_summary_only i2 i1 k]
  have removed: "\<exists>changes. diffOpenAPISpecs object_proto sample_json_parse no_parse text_get_summary text_get_only
          = Inr changes \<and> removed_method ''/a'' ''summary'' \<in> set changes"
    using in_new not_in_old by blast
  from p1 p2 comparable_get_only_summary comparable_get_summary_only i1 i2 k in_new not_in_old
    new removed
  show ?thesis by (intro conjI) assumption+
qed


section \<open>Properties of the extractor and the ranker\<close>

lemmas string_defs = startsWith_def endsWith_def includes_str_def toLowerCase_def lower_char_def
  is_space_def trim_def is_upper_def is_lower_def is_digit_def basename_def sublist_Cons_right
  suffix_to_prefix char_of_eq_iff

lemmas extract_defs = extractApiEndpoints_def extract_change_def path_identifiers_def
  details_identifiers_def keep_endpoint_def single_letter_path_def set_add_all_def set_add_def
  strip_paths_prefix_def strip_method_suffix_def http_methods_def trailing_params_at_def
  is_line_terminator_def path_segments_def partial_paths_def typeof_object_def

lemma extract_users: "extractApiEndpoints stringify users_diff = [''/users/{id}'', ''/users'']"
  by (simp add: users_diff_def extract_defs string_defs upt_rec)

lemma extract_pets: "extractApiEndpoints stringify pets_diff = [''/pets'']"
  by (simp add: pets_diff_def extract_defs string_defs upt_rec)

lemma extract_v1: "extractApiEndpoints stringify v1_diff = []"
  by (simp add: v1_diff_def extract_defs string_defs upt_rec)

text \<open>
  C7. Every identifier the extractor returns is longer than 3 characters, is none of
  \<^verbatim>\<open>/api\<close>, \<^verbatim>\<open>/v1\<close>, \<^verbatim>\<open>/v2\<close>, and is not a slash followed by one lower-case letter.
\<close>

theorem extracted_identifiers_filtered:
  "\<forall>e \<in> set (extractApiEndpoints stringify d).
     length e > 3 \<and> e \<noteq> ''/api'' \<and> e \<noteq> ''/v1'' \<and> e \<noteq> ''/v2'' \<and> \<not> single_letter_path e"
  by (simp add: extractApiEndpoints_def keep_endpoint_def)

theorem extracted_identifiers_filtered_witness:
  "''/users'' \<in> set (extractApiEndpoints stringify_unused users_diff)
   \<and> length ''/users'' > 3 \<and> \<not> single_letter_path ''/users''"
  using extracted_identifiers_filtered [of stringify_unused users_diff]
  by (simp add: extract_users)

lemma maxFiles_ge_2: "2 \<le> maxFiles n"
  by (simp add: maxFiles_def)

lemma maxFiles_ge_3: "n \<le> 5000 \<Longrightarrow> 3 \<le> maxFiles n"
proof -
  assume n: "n \<le> 5000"
  have "3 * max n 1 \<le> 15000" using n by simp
  then have "3 \<le> 15000 div max n 1"
    by (simp add: less_eq_div_iff_mult_less_eq)
  then show ?thesis by (simp add: maxFiles_def)
qed

text \<open>
  C1 (amended). When the identifier set is not empty, or the corpus has at most 5000
  documents, the result is no longer than the budget; when the identifier set is empty
  the result is the first three documents of the corpus (all of them when there are fewer).
\<close>

theorem ranking_budget:
  "((extractApiEndpoints stringify d \<noteq> [] \<or> length allTestFiles \<le> 5000)
      \<longrightarrow> length (findRelevantTestFiles stringify readFile allTestFiles d) \<le> maxFiles (length allTestFiles))
   \<and> (extractApiEndpoints stringify d = []
      \<longrightarrow> findRelevantTestFiles stringify readFile allTestFiles d = take 3 allTestFiles)"
proof (cases "extractApiEndpoints stringify d = []")
  case True
  have "length (take 3 allTestFiles) \<le> maxFiles (length allTestFiles)" if "length allTestFiles \<le> 5000"
    using maxFiles_ge_3 [OF that] by simp
  moreover have "findRelevantTestFiles stringify readFile allTestFiles d = take 3 allTestFiles"
    using True by (simp add: findRelevantTestFiles_def min_def)
  ultimately show ?thesis using True by simp
next
  case False
  have "min 2 k \<le> maxFiles (length allTestFiles)" for k
    using maxFiles_ge_2 [of "length allTestFiles"] by simp
  then show ?thesis
    using False by (simp add: findRelevantTestFiles_def Let_def array_or_def)
qed

text \<open>
  C1 (as stated). With an empty identifier set and 5001 documents the early return
  hands back three documents, and the budget is two.
\<close>

theorem ranking_budget_counterexample:
  "\<not> length (findRelevantTestFiles stringify_unused no_files (numbered_files 5001) v1_diff)
       \<le> maxFiles (length (numbered_files 5001))"
  by (simp add: findRelevantTestFiles_def extract_v1 numbered_files_def maxFiles_def)

lemma l1: "toLowerCase ''GET /Users'' = ''get /users''"
  by (simp add: string_defs)

lemma l2: "endpoint_patterns ''/pets'' = [''/pets'', ''pets'', ''/pets'', ''pets'', ''pets'']"
  by (simp add: endpoint_patterns_def strip_leading_slash_def path_segments_def string_defs)

lemma l3: "file_matches [''/pets''] ''get /users'' = []"
  by (simp add: file_matches_def l2 string_defs)

lemma l4: "is_relevant sample_files [''/pets''] ''test/users.test.js'' = False"
  by (simp add: is_relevant_def sample_files_def l1 l3)

lemma l5: "is_api_test_name ''test/users.test.js'' = False"
  by (simp add: is_api_test_name_def string_defs)

lemma l1b: "toLowerCase ''GET /Orders'' = ''get /orders''"
  by (simp add: string_defs)

lemma l3b: "file_matches [''/pets''] ''get /orders'' = []"
  by (simp add: file_matches_def l2 string_defs)

lemma l4b: "is_relevant sample_files [''/pets''] ''test/orders.test.js'' = False"
  by (simp add: is_relevant_def sample_files_def l1b l3b)

lemma l5b: "is_api_test_name ''test/orders.test.js'' = False"
  by (simp add: is_api_test_name_def string_defs)

text \<open>
  When the identifier set is not empty and no document matches, the result is the first
  two of the documents whose name carries a marker, and nothing else.
\<close>

lemma fallback_by_name:
  assumes "extractApiEndpoints stringify d \<noteq> []"
    and "\<forall>f\<in>set allTestFiles. \<not> is_relevant readFile (extractApiEndpoints stringify d) f"
  shows "findRelevantTestFiles stringify readFile allTestFiles d
           = take 2 (filter is_api_test_name allTestFiles)"
proof -
  have "filter (is_relevant readFile (extractApiEndpoints stringify d)) allTestFiles = []"
    using assms(2) by (simp add: filter_empty_conv)
  then show ?thesis
    using assms(1) by (simp add: findRelevantTestFiles_def Let_def array_or_def min_def)
qed

text \<open>
  C2. A non-empty identifier set, two readable documents that match nothing and whose
  names carry no marker: the result is empty, not the first two documents, because the
  empty array in front of \<^verbatim>\<open>||\<close> is truthy.
\<close>

theorem no_match_no_marker_returns_nothing:
  "extractApiEndpoints stringify_unused pets_diff = [''/pets'']
   \<and> findRelevantTestFiles stringify_unused sample_files
        [''test/users.test.js'', ''test/orders.test.js''] pets_diff = []"
  by (simp add: findRelevantTestFiles_def extract_pets l4 l4b l5 l5b array_or_def)

lemma u2: "endpoint_patterns ''/users'' = [''/users'', ''users'', ''/users'', ''users'', ''users'']"
  by (simp add: endpoint_patterns_def strip_leading_slash_def path_segments_def string_defs)

lemma u2b: "endpoint_patterns ''/users/{id}'' = [''/users/{id}'', ''users/{id}'', ''/users/'', ''users/{id}'', ''users'']"
  by (simp add: endpoint_patterns_def strip_leading_slash_def path_segments_def string_defs)

lemma u3: "file_matches [''/users/{id}'', ''/users''] ''get /users''
    = [''/users/{id}'', ''/users'', ''/users'', ''/users'', ''/users'', ''/users'']"
  by (simp add: file_matches_def u2 u2b string_defs)

lemma u3b: "file_matches [''/users/{id}'', ''/users''] ''get /orders'' = []"
  by (simp add: file_matches_def u2 u2b string_defs)

lemma u4: "is_relevant sample_files [''/users/{id}'', ''/users''] ''test/users.test.js'' = True"
  by (simp add: is_relevant_def sample_files_def l1 u3)

lemma u4b: "is_relevant sample_files [''/users/{id}'', ''/users''] ''test/orders.test.js'' = False"
  by (simp add: is_relevant_def sample_files_def l1b u3b)

lemma find_users:
  "findRelevantTestFiles stringify_unused sample_files [''test/users.test.js'', ''test/orders.test.js''] users_diff
     = [''test/users.test.js'']"
  by (simp add: findRelevantTestFiles_def extract_users u4 u4b maxFiles_def)

theorem ranking_budget_witness:
  "extractApiEndpoints stringify_unused users_diff \<noteq> []
   \<and> length (findRelevantTestFiles stringify_unused sample_files
               [''test/users.test.js'', ''test/orders.test.js''] users_diff)
        \<le> maxFiles (length [''test/users.test.js'', ''test/orders.test.js''])
   \<and> extractApiEndpoints stringify_unused v1_diff = []
   \<and> findRelevantTestFiles stringify_unused sample_files
               [''test/users.test.js'', ''test/orders.test.js''] v1_diff
        = [''test/users.test.js'', ''test/orders.test.js'']"
  using ranking_budget [of stringify_unused users_diff "[''test/users.test.js'', ''test/orders.test.js'']" sample_files]
    ranking_budget [of stringify_unused v1_diff "[''test/users.test.js'', ''test/orders.test.js'']" sample_files]
  by (simp add: extract_users extract_v1)

section \<open>Properties of the context budgeter\<close>

lemma insert_by_key:
  assumes "\<forall>a \<in> set (x # ys). \<forall>b \<in> set (x # ys). cmp a b = int (key a) - int (key b)"
  shows "insert_by cmp x ys = insort_key key x ys"
  using assms by (induction ys) simp_all

lemma insertion_sort_key:
  assumes "\<forall>a \<in> set xs. \<forall>b \<in> set xs. cmp a b = int (key a) - int (key b)"
  shows "insertion_sort cmp xs = sort_key key xs"
  using assms
proof (induction xs)
  case Nil
  then show ?case by (simp add: insertion_sort_def)
next
  case (Cons x xs)
  then have ih: "insertion_sort cmp xs = sort_key key xs" by simp
  have "\<forall>a \<in> set (x # sort_key key xs). \<forall>b \<in> set (x # sort_key key xs).
          cmp a b = int (key a) - int (key b)"
    using Cons.prems by simp
  then have "insert_by cmp x (sort_key key xs) = insort_key key x (sort_key key xs)"
    by (rule insert_by_key)
  then show ?case
    using ih by (simp add: insertion_sort_def sort_key_def)
qed

lemma insertion_sort_conforming: "conforming_sort insertion_sort"
  unfolding conforming_sort_def by (intro allI impI insertion_sort_key)

lemma sortedFiles_sizes:
  assumes "conforming_sort array_sort" "\<forall>f \<in> set testFiles. statSize f = Some (sz f)"
  shows "sortedFiles array_sort statSize testFiles = sort_key sz testFiles"
proof -
  have "\<forall>a \<in> set testFiles. \<forall>b \<in> set testFiles.
          size_comparator statSize a b = int (sz a) - int (sz b)"
    using assms(2) by (simp add: size_comparator_def)
  then show ?thesis
    using assms(1) unfolding conforming_sort_def sortedFiles_def by blast
qed

lemma totalTokens_Nil [simp]: "totalTokens [] = 0"
  by (simp add: totalTokens_def)

lemma totalTokens_Cons [simp]: "totalTokens (e # es) = estimatedTokens (snd e) + totalTokens es"
  by (simp add: totalTokens_def)

lemma read_loop_admitted:
  "i < length (read_loop readFile fs t) \<Longrightarrow> t + totalTokens (take i (read_loop readFile fs t)) < maxTotalTokens"
proof (induction fs arbitrary: t i)
  case Nil
  then show ?case by simp
next
  case (Cons f fs)
  show ?case
  proof (cases "t \<ge> maxTotalTokens")
    case True
    then show ?thesis using Cons.prems by simp
  next
    case False
    show ?thesis
    proof (cases "readFile f")
      case None
      then show ?thesis using Cons False by simp
    next
      case (Some content)
      show ?thesis
      proof (cases i)
        case 0
        then show ?thesis using False by simp
      next
        case (Suc j)
        then have "j < length (read_loop readFile fs (t + estimatedTokens content))"
          using Cons.prems False Some by simp
        from Cons.IH [OF this] show ?thesis
          using False Some Suc by (simp add: add.assoc)
      qed
    qed
  qed
qed

lemma read_loop_subseq: "subseq (map fst (read_loop readFile fs t)) fs"
proof (induction fs arbitrary: t)
  case Nil
  then show ?case by simp
next
  case (Cons f fs)
  then show ?case
    by (cases "readFile f") (auto intro: subseq_Cons')
qed

lemma read_loop_complete:
  "t + totalTokens (read_loop readFile fs t) < maxTotalTokens
   \<Longrightarrow> map fst (read_loop readFile fs t) = filter (\<lambda>f. readFile f \<noteq> None) fs"
proof (induction fs arbitrary: t)
  case Nil
  then show ?case by simp
next
  case (Cons f fs)
  show ?case
  proof (cases "t \<ge> maxTotalTokens")
    case True
    then show ?thesis using Cons.prems by simp
  next
    case False
    show ?thesis
    proof (cases "readFile f")
      case None
      then show ?thesis using Cons False by simp
    next
      case (Some content)
      then have "t + estimatedTokens content + totalTokens (read_loop readFile fs (t + estimatedTokens content)) < maxTotalTokens"
        using Cons.prems False by (simp add: add.assoc)
      from Cons.IH [OF this] show ?thesis
        using False Some by simp
    qed
  qed
qed

text \<open>
  C8 (amended). The files are visited in the order the engine's sort returns. A file is
  included only while the estimate accumulated over the files included before it is
  below the budget, so the total can pass the budget by the estimate of the last file
  included; when the total stays below the budget, every readable file visited is
  included. When the engine's sort conforms to the standard and every file size can be
  read, the order visited is the ascending order of size.
\<close>

theorem budget_admission:
  "subseq (map fst (included_files array_sort statSize readFile testFiles))
      (sortedFiles array_sort statSize testFiles)
   \<and> (\<forall>i < length (included_files array_sort statSize readFile testFiles).
         totalTokens (take i (included_files array_sort statSize readFile testFiles)) < maxTotalTokens)
   \<and> (totalTokens (included_files array_sort statSize readFile testFiles) < maxTotalTokens
         \<longrightarrow> map fst (included_files array_sort statSize readFile testFiles)
               = filter (\<lambda>f. readFile f \<noteq> None) (sortedFiles array_sort statSize testFiles))
   \<and> (conforming_sort array_sort \<and> (\<forall>f \<in> set testFiles. statSize f = Some (sz f))
         \<longrightarrow> sortedFiles array_sort statSize testFiles = sort_key sz testFiles
             \<and> sorted (map sz (sortedFiles array_sort statSize testFiles)))"
proof -
  let ?visited = "sortedFiles array_sort statSize testFiles"
  have s: "included_files array_sort statSize readFile testFiles = read_loop readFile ?visited 0"
    by (simp add: included_files_def)
  have order: "?visited = sort_key sz testFiles \<and> sorted (map sz ?visited)"
    if "conforming_sort array_sort" "\<forall>f \<in> set testFiles. statSize f = Some (sz f)"
    using sortedFiles_sizes [OF that] by simp
  show ?thesis
    unfolding s
    using read_loop_subseq [of readFile ?visited 0]
      read_loop_admitted [of _ readFile ?visited 0]
      read_loop_complete [of 0 readFile ?visited] order
    by simp
qed

lemma split_on_nonempty: "split_on c s \<noteq> []"
  by (induction s) (simp_all split: list.splits)

lemma split_on_no_sep: "c \<notin> set w \<Longrightarrow> split_on c w = [w]"
  by (induction w) auto

lemma split_on_append: "c \<notin> set w \<Longrightarrow> split_on c (w @ c # rest) = w # split_on c rest"
  by (induction w) (auto split: list.splits)

lemma trim_unchanged:
  assumes "w \<noteq> []" "\<not> is_space (hd w)" "\<not> is_space (last w)"
  shows "trim w = w"
proof -
  have a: "dropWhile is_space w = w"
    using assms(1,2) by (cases w) simp_all
  have b: "dropWhile is_space (rev w) = rev w"
    using assms(1,3) by (cases w rule: rev_cases) simp_all
  show ?thesis by (simp add: trim_def a b)
qed

lemma long_line_Cons: "long_line = CHR ''a'' # replicate 27999 CHR ''a''"
proof -
  have "(28000::nat) = Suc 27999" by simp
  then show ?thesis unfolding long_line_def by (metis replicate_Suc)
qed

lemma long_line_facts:
  "length long_line = 28000" "CHR 0x0A \<notin> set long_line" "long_line \<noteq> []"
  "hd long_line = CHR ''a''" "last long_line = CHR ''a''"
  by (simp_all add: long_line_def)

lemma long_line_not_declaration: "\<not> is_declaration long_line"
proof -
  have "trim long_line = long_line"
    by (rule trim_unchanged) (simp_all add: long_line_facts is_space_def)
  then show ?thesis
    by (simp add: is_declaration_def startsWith_def long_line_Cons)
qed

lemma truncate_long_line:
  "truncate_content long_line = [CHR 0x0A, CHR 0x0A] @ long_line @ [CHR 0x0A, CHR 0x0A] @ ''// ...(truncated)''"
  by (simp add: truncate_content_def split_on_no_sep long_line_facts long_line_not_declaration
        maxTokensPerFile_def slice_to_def)

lemma estimate_long_line: "estimatedTokens long_line = 8006"
  by (simp add: estimatedTokens_def truncatedContent_def truncate_long_line long_line_facts
        maxTokensPerFile_def)

text \<open>
  C8 (as stated). One file of a single line of 28000 characters is included, and its
  estimate alone is 8006 tokens.
\<close>

theorem budget_exceeded_counterexample:
  "map fst (included_files insertion_sort big_stat big_reader [''test/big.test.js'']) = [''test/big.test.js'']
   \<and> \<not> totalTokens (included_files insertion_sort big_stat big_reader [''test/big.test.js''])
         \<le> maxTotalTokens"
  by (simp add: included_files_def sortedFiles_def insertion_sort_def big_reader_def
        estimate_long_line maxTotalTokens_def)

lemma sample_estimates:
  "estimatedTokens ''GET /Users'' = 3" "estimatedTokens ''GET /Orders'' = 4"
  by (simp_all add: estimatedTokens_def truncatedContent_def maxTokensPerFile_def)

lemma sample_sorted:
  "sortedFiles insertion_sort sample_stat [''test/orders.test.js'', ''test/users.test.js'']
     = [''test/users.test.js'', ''test/orders.test.js'']"
  by (simp add: sortedFiles_def insertion_sort_def size_comparator_def sample_stat_def sample_size_def)

lemma sample_included:
  "included_files insertion_sort sample_stat sample_files [''test/orders.test.js'', ''test/users.test.js'']
     = [(''test/users.test.js'', ''GET /Users''), (''test/orders.test.js'', ''GET /Orders'')]"
  by (simp add: included_files_def sample_sorted sample_files_def sample_estimates maxTotalTokens_def)

theorem budget_admission_witness:
  "conforming_sort insertion_sort
   \<and> sample_stat ''test/orders.test.js'' = Some (sample_size ''test/orders.test.js'')
   \<and> sample_stat ''test/users.test.js'' = Some (sample_size ''test/users.test.js'')
   \<and> 1 < length (included_files insertion_sort sample_stat sample_files
                    [''test/orders.test.js'', ''test/users.test.js''])
   \<and> totalTokens (take 1 (included_files insertion_sort sample_stat sample_files
                    [''test/orders.test.js'', ''test/users.test.js''])) < maxTotalTokens
   \<and> totalTokens (included_files insertion_sort sample_stat sample_files
                    [''test/orders.test.js'', ''test/users.test.js'']) < maxTotalTokens
   \<and> map fst (included_files insertion_sort sample_stat sample_files
                    [''test/orders.test.js'', ''test/users.test.js''])
       = filter (\<lambda>f. sample_files f \<noteq> None)
           (sortedFiles insertion_sort sample_stat [''test/orders.test.js'', ''test/users.test.js''])
   \<and> sortedFiles insertion_sort sample_stat [''test/orders.test.js'', ''test/users.test.js'']
       = sort_key sample_size [''test/orders.test.js'', ''test/users.test.js'']
   \<and> sorted (map sample_size
         (sortedFiles insertion_sort sample_stat [''test/orders.test.js'', ''test/users.test.js'']))"
proof -
  let ?fs = "[''test/orders.test.js'', ''test/users.test.js'']"
  let ?inc = "included_files insertion_sort sample_stat sample_files ?fs"
  have h: "\<forall>f \<in> set ?fs. sample_stat f = Some (sample_size f)"
    by (simp add: sample_stat_def)
  have s: "sample_stat ''test/orders.test.js'' = Some (sample_size ''test/orders.test.js'')"
    "sample_stat ''test/users.test.js'' = Some (sample_size ''test/users.test.js'')"
    by (simp_all add: sample_stat_def)
  have l: "1 < length ?inc" by (simp add: sample_included)
  have t: "totalTokens ?inc < maxTotalTokens"
    by (simp add: sample_included sample_estimates maxTotalTokens_def)
  note b = budget_admission [of insertion_sort sample_stat sample_files ?fs sample_size]
  from b l have a: "totalTokens (take 1 ?inc) < maxTotalTokens" by blast
  from b t have c: "map fst ?inc = filter (\<lambda>f. sample_files f \<noteq> None)
      (sortedFiles insertion_sort sample_stat ?fs)" by blast
  from b insertion_sort_conforming h
  have o: "sortedFiles insertion_sort sample_stat ?fs = sort_key sample_size ?fs
      \<and> sorted (map sample_size (sortedFiles insertion_sort sample_stat ?fs))" by blast
  from insertion_sort_conforming s l a t c o show ?thesis by (intro conjI) (assumption | blast)+
qed

lemma long_declaration_facts:
  "length long_declaration = 1106" "CHR 0x0A \<notin> set long_declaration" "long_declaration \<noteq> []"
  "hd long_declaration = CHR ''c''" "last long_declaration = CHR ''x''"
  by (simp_all add: long_declaration_def)

lemma long_declaration_is_declaration: "is_declaration long_declaration"
proof -
  have "trim long_declaration = long_declaration"
    by (rule trim_unchanged) (simp_all add: long_declaration_facts is_space_def)
  then show ?thesis
    by (simp add: is_declaration_def startsWith_def long_declaration_def)
qed

lemma short_lines_not_declarations:
  "\<not> is_declaration ''A''" "\<not> is_declaration ''B''" "\<not> is_declaration ''C''" "\<not> is_declaration ''D''"
  by (simp_all add: is_declaration_def startsWith_def trim_def is_space_def)

lemma negative_budget_lines:
  "split_on CHR 0x0A negative_budget_file = [long_declaration, ''A'', ''B'', ''C'', ''D'']"
  by (simp add: negative_budget_file_def split_on_append long_declaration_facts)

text \<open>
  While the declaration lines kept fit the per-file budget, the rendering is those
  lines, a blank line, the first lines of the rest of the file up to the line budget, a
  blank line and the marker.
\<close>

lemma truncate_content_within_budget:
  assumes "length (join [CHR 0x0A] (take 10 (filter is_declaration (split_on CHR 0x0A content))))
             \<le> maxTokensPerFile"
  shows "truncate_content content =
     join [CHR 0x0A] (take 10 (filter is_declaration (split_on CHR 0x0A content)))
     @ [CHR 0x0A, CHR 0x0A]
     @ join [CHR 0x0A]
         (take ((maxTokensPerFile
                 - length (join [CHR 0x0A] (take 10 (filter is_declaration (split_on CHR 0x0A content)))))
                div 50)
            (filter (\<lambda>line. \<not> is_declaration line) (split_on CHR 0x0A content)))
     @ [CHR 0x0A, CHR 0x0A] @ ''// ...(truncated)''"
proof -
  let ?n = "length (join [CHR 0x0A] (take 10 (filter is_declaration (split_on CHR 0x0A content))))"
  have "(int maxTokensPerFile - int ?n) div 50 = int ((maxTokensPerFile - ?n) div 50)"
    using assms by (simp add: of_nat_diff zdiv_int)
  then show ?thesis
    by (simp add: truncate_content_def slice_to_def Let_def)
qed

text \<open>
  C9. A file whose only declaration line has 1106 characters, followed by four other
  lines: the computed line budget is \<open>-3\<close>, and \<^verbatim>\<open>slice(0, -3)\<close> keeps the first of the four
  lines instead of none.
\<close>

theorem negative_budget_keeps_code_lines:
  "length negative_budget_file > maxTokensPerFile
   \<and> (int maxTokensPerFile - int (length long_declaration)) div 50 = - 3
   \<and> truncatedContent negative_budget_file
       = long_declaration @ [CHR 0x0A, CHR 0x0A] @ ''A'' @ [CHR 0x0A, CHR 0x0A] @ ''// ...(truncated)''"
proof -
  have len: "length negative_budget_file > maxTokensPerFile"
    by (simp add: negative_budget_file_def long_declaration_facts maxTokensPerFile_def)
  have budget: "(int maxTokensPerFile - int (length long_declaration)) div 50 = - 3"
    by (simp add: long_declaration_facts maxTokensPerFile_def)
  have "truncate_content negative_budget_file
       = long_declaration @ [CHR 0x0A, CHR 0x0A] @ ''A'' @ [CHR 0x0A, CHR 0x0A] @ ''// ...(truncated)''"
    unfolding truncate_content_def negative_budget_lines
    by (simp add: long_declaration_is_declaration short_lines_not_declarations budget slice_to_def)
  with len budget show ?thesis
    by (simp add: truncatedContent_def)
qed

end
